theory Spec2Isabelle
  imports Main "HOL-Library.Char_ord" "HOL-Library.List_Lexorder" "HOL-Library.AList"
begin

unbundle bit_operations_syntax

section \<open>Strings\<close>

text \<open>
  Python strings are modelled as \<^typ>\<open>string\<close>. The scripts only ever compare strings,
  concatenate them, sort them and feed their UTF-8 encoding to SHA-1, so a string stands
  for its UTF-8 bytes; of the characters that \<^verbatim>\<open>\s\<close> and \<^verbatim>\<open>str.strip\<close> treat as
  white space the ASCII ones are modelled.
\<close>

definition digit_char :: "nat \<Rightarrow> char" where
  "digit_char d = ''0123456789'' ! d"

text \<open>\<^verbatim>\<open>str(n)\<close> for a non-negative integer: its decimal digits.\<close>

fun str_of_nat :: "nat \<Rightarrow> string" where
  "str_of_nat n =
     (if n < 10 then [digit_char n] else str_of_nat (n div 10) @ [digit_char (n mod 10)])"

declare str_of_nat.simps [simp del]

text \<open>\<^verbatim>\<open>sep.join(xs)\<close>\<close>

fun str_join :: "string \<Rightarrow> string list \<Rightarrow> string" where
  "str_join sep [] = []"
| "str_join sep [x] = x"
| "str_join sep (x # y # ys) = x @ sep @ str_join sep (y # ys)"

text \<open>
  \<^verbatim>\<open>re.sub(r'[...]+', r, s)\<close> for a character class: every maximal run of characters of
  the class is replaced by the one character \<open>r\<close>.
\<close>

function sub_runs :: "(char \<Rightarrow> bool) \<Rightarrow> char \<Rightarrow> string \<Rightarrow> string" where
  "sub_runs p r [] = []"
| "sub_runs p r (c # cs) =
     (if p c then r # sub_runs p r (dropWhile p cs) else c # sub_runs p r cs)"
  by pat_completeness auto
termination
  by (relation "measure (\<lambda>(p, r, s). length s)")
     (auto simp: less_Suc_eq_le length_dropWhile_le)

definition forbidden :: "char \<Rightarrow> bool" where
  "forbidden c \<longleftrightarrow>
     c \<in> {CHR 0x5C, CHR ''/'', CHR '':'', CHR 0x22, CHR ''*'', CHR ''?'', CHR ''<'', CHR ''>'',
          CHR ''|''}"

definition is_space :: "char \<Rightarrow> bool" where
  "is_space c \<longleftrightarrow>
     c \<in> {CHR '' '', CHR 0x09, CHR 0x0A, CHR 0x0B, CHR 0x0C, CHR 0x0D,
          CHR 0x1C, CHR 0x1D, CHR 0x1E, CHR 0x1F}"

definition strip :: "string \<Rightarrow> string" where
  "strip s = rev (dropWhile is_space (rev (dropWhile is_space s)))"

text \<open>
  \<^verbatim>\<open>
  def sanitize(name: str) -> str:
      name = re.sub(r'[\\/:"*?<>|]+', '_', name)
      name = re.sub(r'\s+', ' ', name).strip()
      return name or "Untitled"
  \<close>
\<close>

definition sanitize :: "string \<Rightarrow> string" where
  "sanitize name =
     (let name1 = sub_runs forbidden (CHR ''_'') name;
          name2 = strip (sub_runs is_space (CHR '' '') name1)
      in if name2 = [] then ''Untitled'' else name2)"

section \<open>Filename assignment\<close>

text \<open>
  The de-duplication loop of \<^verbatim>\<open>plan_pages\<close>, the same in both scripts:
  \<^verbatim>\<open>
  seen: dict[str, int] = {}
  file_specs = []
  for idx, t in enumerate(titles):
      base = sanitize(t)
      n = base
      count = seen.get(base, 0)
      while n in seen:
          count += 1
          n = f"{base} ({count})"
      seen[base] = count
      seen[n] = 0
      file_specs.append((idx, n + ".svg"))
  \<close>
  The dictionary \<^verbatim>\<open>seen\<close> is an association list, written with \<^const>\<open>AList.update\<close>.
\<close>

type_synonym seen_dict = "(string \<times> nat) list"

definition seen_get :: "seen_dict \<Rightarrow> string \<Rightarrow> nat" where
  "seen_get seen k = (case map_of seen k of None \<Rightarrow> 0 | Some c \<Rightarrow> c)"

definition numbered :: "string \<Rightarrow> nat \<Rightarrow> string" where
  "numbered base k = base @ '' ('' @ str_of_nat k @ '')''"

lemma digit_char_code: "d < 10 \<Longrightarrow> of_char (digit_char d) = 48 + d"
proof -
  assume "d < 10"
  then have "d \<in> {0, 1, 2, 3, 4, 5, 6, 7, 8, 9}" by auto
  then show ?thesis by (auto simp: digit_char_def)
qed

lemma digit_char_inj: "a < 10 \<Longrightarrow> b < 10 \<Longrightarrow> digit_char a = digit_char b \<Longrightarrow> a = b"
proof -
  assume a: "a < 10" and b: "b < 10" and eq: "digit_char a = digit_char b"
  from eq have "(of_char (digit_char a) :: nat) = of_char (digit_char b)" by simp
  with a b show "a = b" by (simp add: digit_char_code)
qed

lemma str_of_nat_nonempty: "str_of_nat n \<noteq> []"
  by (subst str_of_nat.simps) simp

lemma str_of_nat_inj: "str_of_nat m = str_of_nat n \<Longrightarrow> m = n"
proof (induction m arbitrary: n rule: str_of_nat.induct)
  case (1 m)
  show ?case
  proof (cases "m < 10")
    case small_m: True
    show ?thesis
    proof (cases "n < 10")
      case True
      with small_m "1.prems" show ?thesis
        by (simp add: str_of_nat.simps [of m] str_of_nat.simps [of n] digit_char_inj)
    next
      case False
      with small_m "1.prems" show ?thesis
        using str_of_nat_nonempty [of "n div 10"]
        by (simp add: str_of_nat.simps [of m] str_of_nat.simps [of n])
    qed
  next
    case big_m: False
    show ?thesis
    proof (cases "n < 10")
      case True
      with big_m "1.prems" show ?thesis
        using str_of_nat_nonempty [of "m div 10"]
        by (simp add: str_of_nat.simps [of m] str_of_nat.simps [of n])
    next
      case False
      with big_m "1.prems"
      have hi: "str_of_nat (m div 10) = str_of_nat (n div 10)"
        and lo: "digit_char (m mod 10) = digit_char (n mod 10)"
        by (simp_all add: str_of_nat.simps [of m] str_of_nat.simps [of n])
      from big_m hi have "m div 10 = n div 10" by (rule "1.IH")
      moreover from lo have "m mod 10 = n mod 10" by (simp add: digit_char_inj)
      ultimately show ?thesis by (metis div_mult_mod_eq)
    qed
  qed
qed

lemma numbered_inj: "inj (numbered base)"
  by (rule injI) (simp add: numbered_def str_of_nat_inj)

lemma finite_numbered: "finite {k. P k \<and> numbered base k \<in> set ks}"
proof -
  have "finite (numbered base -` set ks)"
    by (rule finite_vimageI) (simp_all add: numbered_inj)
  then show ?thesis by (rule rev_finite_subset) auto
qed

text \<open>
  The \<^verbatim>\<open>while n in seen\<close> loop, on its two variables. It stops because the candidate
  names \<open>base (1)\<close>, \<open>base (2)\<close>, ... are all different and \<^verbatim>\<open>seen\<close> is finite.
\<close>

function find_name :: "seen_dict \<Rightarrow> string \<Rightarrow> nat \<Rightarrow> string \<Rightarrow> nat \<times> string" where
  "find_name seen base count n =
     (if n \<in> set (map fst seen)
      then find_name seen base (count + 1) (numbered base (count + 1))
      else (count, n))"
  by pat_completeness auto
termination
proof (relation "measure (\<lambda>(seen, base, count, n).
          card {k. count < k \<and> numbered base k \<in> set (map fst seen)}
          + (if n \<in> set (map fst seen) then 1 else 0))")
  show "wf (measure (\<lambda>(seen, base, count, n).
          card {k. count < k \<and> numbered base k \<in> set (map fst seen)}
          + (if n \<in> set (map fst seen) then 1 else 0)))"
    by simp
next
  fix seen :: seen_dict and base :: string and count :: nat and n :: string
  assume n: "n \<in> set (map fst seen)"
  let ?K = "set (map fst seen)"
  let ?A = "{k. count < k \<and> numbered base k \<in> ?K}"
  let ?B = "{k. count + 1 < k \<and> numbered base k \<in> ?K}"
  have fin: "finite ?B" by (rule finite_numbered)
  have "card ?B + (if numbered base (count + 1) \<in> ?K then 1 else 0) = card ?A"
  proof (cases "numbered base (count + 1) \<in> ?K")
    case True
    then have "?A = insert (count + 1) ?B" by (auto simp: Suc_lessI)
    with fin True show ?thesis by simp
  next
    case False
    have "k \<in> ?A \<longleftrightarrow> k \<in> ?B" for k
    proof (cases "k = count + 1")
      case True
      with False show ?thesis by simp
    next
      case False
      then show ?thesis by auto
    qed
    then have "?A = ?B" by blast
    with False show ?thesis by simp
  qed
  with n show "((seen, base, count + 1, numbered base (count + 1)), (seen, base, count, n))
      \<in> measure (\<lambda>(seen, base, count, n).
          card {k. count < k \<and> numbered base k \<in> set (map fst seen)}
          + (if n \<in> set (map fst seen) then 1 else 0))"
    by simp
qed

declare find_name.simps [simp del]

fun assign_loop :: "seen_dict \<Rightarrow> nat \<Rightarrow> string list \<Rightarrow> (nat \<times> string) list" where
  "assign_loop seen idx [] = []"
| "assign_loop seen idx (t # ts) =
     (let base = sanitize t;
          (count, n) = find_name seen base (seen_get seen base) base;
          seen1 = AList.update base count seen;
          seen2 = AList.update n 0 seen1
      in (idx, n @ ''.svg'') # assign_loop seen2 (idx + 1) ts)"

definition assign_filenames :: "string list \<Rightarrow> (nat \<times> string) list" where
  "assign_filenames titles = assign_loop [] 0 titles"

section \<open>SHA-1\<close>

text \<open>
  \<^verbatim>\<open>hashlib.sha1\<close>, as FIPS 180-4 defines it. A 32-bit word is an \<^typ>\<open>int\<close> in
  \<open>[0, 2^32)\<close>, with the wrap-around written out. \<^verbatim>\<open>h.update(a); h.update(b)\<close> hashes the
  concatenation, so a hash object is modelled by the bytes it has been fed.
\<close>

definition rotl :: "nat \<Rightarrow> int \<Rightarrow> int" where
  "rotl n x = (x * 2 ^ n) mod 4294967296 + x div 2 ^ (32 - n)"

definition sha1_pad :: "string \<Rightarrow> int list" where
  "sha1_pad s =
     (let n = length s;
          z = (119 - n mod 64) mod 64
      in map (\<lambda>c. int (of_char c)) s @ [128] @ replicate z 0
         @ map (\<lambda>i. (int (8 * n) div 2 ^ (8 * (7 - i))) mod 256) [0, 1, 2, 3, 4, 5, 6, 7])"

fun be32 :: "int list \<Rightarrow> int list" where
  "be32 (a # b # c # d # bs) = (((a * 256 + b) * 256 + c) * 256 + d) # be32 bs"
| "be32 _ = []"

definition sha1_f :: "nat \<Rightarrow> int \<Rightarrow> int \<Rightarrow> int \<Rightarrow> int" where
  "sha1_f t b c d =
     (if t < 20 then (b AND c) OR ((4294967295 - b) AND d)
      else if t < 40 then b XOR c XOR d
      else if t < 60 then (b AND c) OR (b AND d) OR (c AND d)
      else b XOR c XOR d)"

definition sha1_k :: "nat \<Rightarrow> int" where
  "sha1_k t = (if t < 20 then 0x5A827999 else if t < 40 then 0x6ED9EBA1
               else if t < 60 then 0x8F1BBCDC else 0xCA62C1D6)"

type_synonym sha1_state = "int \<times> int \<times> int \<times> int \<times> int"

text \<open>The 80 rounds over one block; \<open>w\<close> is the sliding window of the message schedule.\<close>

function sha1_rounds :: "nat \<Rightarrow> int list \<Rightarrow> sha1_state \<Rightarrow> sha1_state" where
  "sha1_rounds t w (a, b, c, d, e) =
     (if 80 \<le> t then (a, b, c, d, e)
      else sha1_rounds (t + 1)
             (tl w @ [rotl 1 (w ! 13 XOR w ! 8 XOR w ! 2 XOR w ! 0)])
             ((rotl 5 a + sha1_f t b c d + e + sha1_k t + hd w) mod 4294967296,
              a, rotl 30 b, c, d))"
  by pat_completeness auto
termination
  by (relation "measure (\<lambda>(t, w, s). 80 - t)") auto

declare sha1_rounds.simps [simp del]

definition sha1_compress :: "sha1_state \<Rightarrow> int list \<Rightarrow> sha1_state" where
  "sha1_compress st blk =
     (case st of (h0, h1, h2, h3, h4) \<Rightarrow>
        (case sha1_rounds 0 blk st of (a, b, c, d, e) \<Rightarrow>
           ((h0 + a) mod 4294967296, (h1 + b) mod 4294967296, (h2 + c) mod 4294967296,
            (h3 + d) mod 4294967296, (h4 + e) mod 4294967296)))"

function sha1_blocks :: "int list \<Rightarrow> sha1_state \<Rightarrow> sha1_state" where
  "sha1_blocks ws st =
     (if ws = [] then st else sha1_blocks (drop 16 ws) (sha1_compress st (take 16 ws)))"
  by pat_completeness auto
termination
  by (relation "measure (\<lambda>(ws, s). length ws)") auto

declare sha1_blocks.simps [simp del]

definition hex_digit :: "int \<Rightarrow> char" where
  "hex_digit n = ''0123456789abcdef'' ! nat n"

definition hex32 :: "int \<Rightarrow> string" where
  "hex32 w = map (\<lambda>i. hex_digit ((w div 16 ^ (7 - i)) mod 16)) [0, 1, 2, 3, 4, 5, 6, 7]"

text \<open>\<^verbatim>\<open>hashlib.sha1(s).hexdigest()\<close>\<close>

definition sha1_hexdigest :: "string \<Rightarrow> string" where
  "sha1_hexdigest s =
     (case sha1_blocks (be32 (sha1_pad s))
             (0x67452301, 0xEFCDAB89, 0x98BADCFE, 0x10325476, 0xC3D2E1F0)
      of (a, b, c, d, e) \<Rightarrow> hex32 a @ hex32 b @ hex32 c @ hex32 d @ hex32 e)"

section \<open>Page content and its fingerprint\<close>

text \<open>
  An \<^verbatim>\<open>xml.etree.ElementTree.Element\<close>: tag, attribute dictionary (in insertion order, keys
  distinct), text, children, tail. \<^verbatim>\<open>text\<close> and \<^verbatim>\<open>tail\<close> may be \<^verbatim>\<open>None\<close>.
\<close>

datatype element =
  Element (tag: string) (attrib: "(string \<times> string) list") (etext: "string option")
    (children: "element list") (etail: "string option")

text \<open>\<^verbatim>\<open>attrib.get(k, '')\<close>\<close>

definition attr_get :: "(string \<times> string) list \<Rightarrow> string \<Rightarrow> string" where
  "attr_get as k = (case map_of as k of None \<Rightarrow> [] | Some v \<Rightarrow> v)"

text \<open>\<^verbatim>\<open>if node.text: h.update(node.text.encode(...))\<close>: the bytes an optional string adds.\<close>

definition fed :: "string option \<Rightarrow> string" where
  "fed t = (case t of None \<Rightarrow> [] | Some s \<Rightarrow> s)"

text \<open>
  \<^verbatim>\<open>
  def walk(node):
      h.update((node.tag or "").encode("utf-8", errors="ignore"))
      for k in sorted(node.attrib):
          h.update(k.encode("utf-8", errors="ignore"))
          h.update(str(node.attrib[k]).encode("utf-8", errors="ignore"))
      if node.text:
          h.update(node.text.encode("utf-8", errors="ignore"))
      for child in list(node):
          walk(child)
      if node.tail:
          h.update(node.tail.encode("utf-8", errors="ignore"))
  \<close>
  \<open>walk\<close> returns the bytes fed to the hash object, in order.
\<close>

fun walk :: "element \<Rightarrow> string" where
  "walk (Element t as tx cs ta) =
     t @ concat (map (\<lambda>k. k @ attr_get as k) (sort (map fst as)))
       @ fed tx @ concat (map walk cs) @ fed ta"

text \<open>The script variant: \<^verbatim>\<open>walk(element); return h.hexdigest()\<close>.\<close>

definition page_hash_script :: "element \<Rightarrow> string" where
  "page_hash_script e = sha1_hexdigest (walk e)"

text \<open>
  The typer variant feeds one more string first:
  \<^verbatim>\<open>
  attrs = "|".join(f"{k}={e.attrib.get(k,'')}" for k in sorted(e.attrib))
  h.update(attrs.encode("utf-8", errors="ignore"))
  \<close>
\<close>

definition attrs_line :: "element \<Rightarrow> string" where
  "attrs_line e =
     str_join ''|'' (map (\<lambda>k. k @ ''='' @ attr_get (attrib e) k) (sort (map fst (attrib e))))"

definition page_hash_typer :: "element \<Rightarrow> string" where
  "page_hash_typer e = sha1_hexdigest (attrs_line e @ walk e)"

section \<open>Pages of a document\<close>

text \<open>The exceptions the planning code can raise.\<close>

datatype error = AttributeError | ValueError | TypeError | KeyError | LookupError

text \<open>
  What \<^verbatim>\<open>ET.parse(path)\<close> makes of the input file: it gives the root element, or raises
  \<^verbatim>\<open>ParseError\<close> (the text is not well-formed XML), or raises another exception: the
  parser raises \<^verbatim>\<open>ValueError\<close> when the XML declaration names a multi-byte encoding it
  does not support, and \<^verbatim>\<open>LookupError\<close> when it names an encoding that is unknown. (The
  callers have checked that the input is a file.) Only \<^verbatim>\<open>ParseError\<close> is caught:
  \<^verbatim>\<open>
  def get_page_elements(path):
      try:
          tree = ET.parse(path)
          root = tree.getroot()
          return list(root.findall(".//diagram"))
      except ET.ParseError:
          return []
  \<close>
\<close>

datatype document = ParseError | OtherError error | Parsed element

text \<open>All elements below a node, in document order.\<close>

fun descendants :: "element \<Rightarrow> element list" where
  "descendants (Element t as tx cs ta) = concat (map (\<lambda>c. c # descendants c) cs)"

definition get_page_elements :: "document \<Rightarrow> error + element list" where
  "get_page_elements doc =
     (case doc of
        ParseError \<Rightarrow> Inr []
      | OtherError e \<Rightarrow> Inl e
      | Parsed root \<Rightarrow> Inr (filter (\<lambda>e. tag e = ''diagram'') (descendants root)))"

text \<open>\<^verbatim>\<open>d.attrib.get("name") or f"Page {i+1}"\<close>\<close>

definition page_title :: "nat \<Rightarrow> element \<Rightarrow> string" where
  "page_title i d =
     (case map_of (attrib d) ''name'' of
        None \<Rightarrow> ''Page '' @ str_of_nat (i + 1)
      | Some n \<Rightarrow> if n = [] then ''Page '' @ str_of_nat (i + 1) else n)"

text \<open>\<^verbatim>\<open>titles = [... for i, d in enumerate(diagrams)] or ["Page 1"]\<close>\<close>

definition page_titles :: "element list \<Rightarrow> string list" where
  "page_titles diagrams =
     (let titles = map (\<lambda>(i, d). page_title i d) (enumerate 0 diagrams)
      in if titles = [] then [''Page 1''] else titles)"

text \<open>
  \<^verbatim>\<open>plan_pages\<close> is the same in both scripts but for the \<^verbatim>\<open>page_hash\<close> it calls, which is
  the parameter \<open>ph\<close> here. Its first statement is
  \<^verbatim>\<open>diagrams = get_page_elements(input_path)\<close>, which may raise; \<open>plan_diagrams\<close> is the rest
  of its body, which computes \<^verbatim>\<open>file_specs\<close> and the dictionary \<^verbatim>\<open>hashes\<close> from the page
  elements:
  \<^verbatim>\<open>
  hashes = {}
  if diagrams:
      for i, e in enumerate(diagrams):
          hashes[i] = page_hash(e)
  else:
      hashes[0] = hashlib.sha1(b"single-page-fallback").hexdigest()
  return file_specs, hashes
  \<close>
\<close>

definition plan_diagrams ::
  "(element \<Rightarrow> string) \<Rightarrow> element list \<Rightarrow> (nat \<times> string) list \<times> (nat \<times> string) list" where
  "plan_diagrams ph diagrams =
     (let file_specs = assign_filenames (page_titles diagrams);
          hashes = (if diagrams \<noteq> [] then map (\<lambda>(i, e). (i, ph e)) (enumerate 0 diagrams)
                    else [(0, sha1_hexdigest ''single-page-fallback'')])
      in (file_specs, hashes))"

definition plan_pages ::
  "(element \<Rightarrow> string) \<Rightarrow> document
     \<Rightarrow> error + ((nat \<times> string) list \<times> (nat \<times> string) list)" where
  "plan_pages ph doc =
     (case get_page_elements doc of
        Inl e \<Rightarrow> Inl e
      | Inr diagrams \<Rightarrow> Inr (plan_diagrams ph diagrams))"

section \<open>Files, paths and JSON values\<close>

text \<open>
  What \<^verbatim>\<open>json.load\<close> returns: \<^verbatim>\<open>None\<close>, a bool, a number (integers are modelled), a
  string, a list or a dictionary (in insertion order, keys distinct).
\<close>

datatype json =
  JNull | JBool bool | JNum int | JStr string | JArr "json list" | JObj "(string \<times> json) list"

text \<open>Python's truth value of a JSON value, and \<^verbatim>\<open>not x\<close> for the result of a \<^verbatim>\<open>dict.get\<close>.\<close>

fun truthy :: "json \<Rightarrow> bool" where
  "truthy JNull = False"
| "truthy (JBool b) = b"
| "truthy (JNum n) = (n \<noteq> 0)"
| "truthy (JStr s) = (s \<noteq> [])"
| "truthy (JArr xs) = (xs \<noteq> [])"
| "truthy (JObj kvs) = (kvs \<noteq> [])"

definition py_not :: "json option \<Rightarrow> bool" where
  "py_not x = (case x of None \<Rightarrow> True | Some j \<Rightarrow> \<not> truthy j)"

text \<open>\<^verbatim>\<open>x.get(key)\<close>: only a dictionary has the method.\<close>

definition entry_get :: "json \<Rightarrow> string \<Rightarrow> error + json option" where
  "entry_get x key = (case x of JObj kvs \<Rightarrow> Inr (map_of kvs key) | _ \<Rightarrow> Inl AttributeError)"

text \<open>
  \<^verbatim>\<open>int(k)\<close> for a string: white space around, an optional sign, decimal digits with single
  underscores allowed between them; anything else raises \<^verbatim>\<open>ValueError\<close>.
\<close>

definition is_digit :: "char \<Rightarrow> bool" where
  "is_digit c \<longleftrightarrow> c \<in> set ''0123456789''"

definition digit_val :: "char \<Rightarrow> nat" where
  "digit_val c = of_char c - 48"

fun int_tail :: "nat \<Rightarrow> string \<Rightarrow> nat option" where
  "int_tail acc [] = Some acc"
| "int_tail acc (c # cs) =
     (if is_digit c then int_tail (10 * acc + digit_val c) cs
      else if c = CHR ''_'' then
        (case cs of
           [] \<Rightarrow> None
         | d # ds \<Rightarrow> if is_digit d then int_tail (10 * acc + digit_val d) ds else None)
      else None)"

definition py_nat :: "string \<Rightarrow> nat option" where
  "py_nat s = (case s of [] \<Rightarrow> None | c # cs \<Rightarrow> if is_digit c then int_tail 0 s else None)"

definition py_int :: "string \<Rightarrow> int option" where
  "py_int s =
     (case strip s of
        [] \<Rightarrow> None
      | c # cs \<Rightarrow>
          if c = CHR ''-'' then map_option (\<lambda>n. - int n) (py_nat cs)
          else if c = CHR ''+'' then map_option int (py_nat cs)
          else map_option int (py_nat (c # cs)))"

text \<open>
  The files the planner looks at: output files and manifests. Of a file's content only
  what \<^verbatim>\<open>json.load\<close> makes of it matters: it raises, or it returns a value.
\<close>

datatype content = NotJson | Json json

type_synonym filesystem = "string \<Rightarrow> content option"

definition isfile :: "filesystem \<Rightarrow> string \<Rightarrow> bool" where
  "isfile fs p \<longleftrightarrow> fs p \<noteq> None"

text \<open>\<^verbatim>\<open>os.path.join(a, b)\<close> on POSIX; \<^verbatim>\<open>Path(a) / b\<close> for the script variant.\<close>

definition path_join :: "string \<Rightarrow> string \<Rightarrow> string" where
  "path_join a b =
     (if b \<noteq> [] \<and> hd b = CHR ''/'' then b
      else if a = [] \<or> last a = CHR ''/'' then a @ b
      else a @ ''/'' @ b)"

definition basename :: "string \<Rightarrow> string" where
  "basename p = rev (takeWhile (\<lambda>c. c \<noteq> CHR ''/'') (rev p))"

text \<open>\<^verbatim>\<open>os.path.splitext(name)[0]\<close>: cut at the last dot, unless only dots come before it.\<close>

definition splitext_root :: "string \<Rightarrow> string" where
  "splitext_root name =
     (let rest = dropWhile (\<lambda>c. c \<noteq> CHR ''.'') (rev name)
      in if rest = [] \<or> list_all (\<lambda>c. c = CHR ''.'') (tl rest) then name else rev (tl rest))"

text \<open>\<^verbatim>\<open>Path(name).stem\<close>: cut at the last dot, unless it is the first or the last character.\<close>

definition path_stem :: "string \<Rightarrow> string" where
  "path_stem name =
     (let ext = takeWhile (\<lambda>c. c \<noteq> CHR ''.'') (rev name);
          rest = dropWhile (\<lambda>c. c \<noteq> CHR ''.'') (rev name)
      in if rest = [] \<or> tl rest = [] \<or> ext = [] then name else rev (tl rest))"

text \<open>
  \<^verbatim>\<open>
  def manifest_path(outdir, input_path):               # typer variant
      base = os.path.splitext(os.path.basename(input_path))[0]
      return os.path.join(outdir, f".drawio-export.{base}.json")
  def manifest_path(input_file):                       # script variant
      base = input_file.stem
      return MANIFEST_DIR / f".drawio-export.{base}.json"
  \<close>
  \<^verbatim>\<open>MANIFEST_DIR\<close> and the script's output directory are module constants; they are
  parameters here.
\<close>

definition manifest_path_typer :: "string \<Rightarrow> string \<Rightarrow> string" where
  "manifest_path_typer outdir input_path =
     path_join outdir (''.drawio-export.'' @ splitext_root (basename input_path) @ ''.json'')"

definition manifest_path_script :: "string \<Rightarrow> string \<Rightarrow> string" where
  "manifest_path_script manifest_dir input_file =
     path_join manifest_dir (''.drawio-export.'' @ path_stem (basename input_file) @ ''.json'')"

text \<open>
  \<^verbatim>\<open>
  def load_manifest(path):
      if not os.path.isfile(path):
          return {}
      try:
          with open(path, "r", encoding="utf-8") as f:
              return json.load(f)
      except Exception:
          return {}
  \<close>
\<close>

definition load_manifest :: "filesystem \<Rightarrow> string \<Rightarrow> json" where
  "load_manifest fs path =
     (if \<not> isfile fs path then JObj []
      else (case fs path of Some (Json j) \<Rightarrow> j | _ \<Rightarrow> JObj []))"

text \<open>\<^verbatim>\<open>json.dump(data, f, indent=2, sort_keys=True)\<close> writes every dictionary by sorted key.\<close>

fun sort_keys :: "json \<Rightarrow> json" where
  "sort_keys (JObj kvs) = JObj (sort_key fst (map (\<lambda>(k, v). (k, sort_keys v)) kvs))"
| "sort_keys (JArr xs) = JArr (map sort_keys xs)"
| "sort_keys j = j"

text \<open>
  \<^verbatim>\<open>
  def save_manifest(path, data):
      tmp = path + ".tmp"
      with open(tmp, "w", encoding="utf-8") as f:
          json.dump(data, f, indent=2, sort_keys=True)
      os.replace(tmp, path)
  \<close>
\<close>

definition save_manifest :: "filesystem \<Rightarrow> string \<Rightarrow> json \<Rightarrow> filesystem" where
  "save_manifest fs path data = (fs(path @ ''.tmp'' := None))(path \<mapsto> Json (sort_keys data))"


section \<open>Export planning\<close>

text \<open>\<^verbatim>\<open>prev.get("pages", {})\<close>\<close>

definition get_pages :: "json \<Rightarrow> error + json" where
  "get_pages prev =
     (case prev of
        JObj kvs \<Rightarrow> (case map_of kvs ''pages'' of None \<Rightarrow> Inr (JObj []) | Some p \<Rightarrow> Inr p)
      | _ \<Rightarrow> Inl AttributeError)"

text \<open>\<^verbatim>\<open>{int(k): v for k, v in prev_pages.items()} if prev_pages else {}\<close>\<close>

fun index_items :: "(int \<times> json) list \<Rightarrow> (string \<times> json) list \<Rightarrow> error + (int \<times> json) list" where
  "index_items acc [] = Inr acc"
| "index_items acc ((k, v) # kvs) =
     (case py_int k of
        None \<Rightarrow> Inl ValueError
      | Some i \<Rightarrow> index_items (AList.update i v acc) kvs)"

definition prev_by_index_of :: "json \<Rightarrow> error + (int \<times> json) list" where
  "prev_by_index_of prev_pages =
     (if truthy prev_pages
      then (case prev_pages of JObj kvs \<Rightarrow> index_items [] kvs | _ \<Rightarrow> Inl AttributeError)
      else Inr [])"

text \<open>\<^verbatim>\<open>hashes[idx]\<close>\<close>

definition hash_at :: "(nat \<times> string) list \<Rightarrow> nat \<Rightarrow> error + string" where
  "hash_at hashes idx = (case map_of hashes idx of None \<Rightarrow> Inl KeyError | Some h \<Rightarrow> Inr h)"

text \<open>
  A loop that appends the items its body selects, and stops at the first exception.
\<close>

fun filter_err :: "('a \<Rightarrow> error + bool) \<Rightarrow> 'a list \<Rightarrow> error + 'a list" where
  "filter_err p [] = Inr []"
| "filter_err p (x # xs) =
     (case p x of
        Inl e \<Rightarrow> Inl e
      | Inr b \<Rightarrow>
          (case filter_err p xs of
             Inl e \<Rightarrow> Inl e
           | Inr ys \<Rightarrow> Inr (if b then x # ys else ys)))"

text \<open>
  The comparison both scripts make once a page has a previous entry:
  \<^verbatim>\<open>
  prev_hash = prev_entry.get("hash")
  prev_fname = prev_entry.get("filename")
  out_path = os.path.join(outdir, fname)
  if (h != prev_hash) or (fname != prev_fname) or (not os.path.isfile(out_path)):
      to_export.append((idx, fname))
  \<close>
\<close>

definition changed :: "filesystem \<Rightarrow> string \<Rightarrow> string \<Rightarrow> string \<Rightarrow> json \<Rightarrow> error + bool" where
  "changed fs outdir h fname prev_entry =
     (case entry_get prev_entry ''hash'' of
        Inl e \<Rightarrow> Inl e
      | Inr prev_hash \<Rightarrow>
          (case entry_get prev_entry ''filename'' of
             Inl e \<Rightarrow> Inl e
           | Inr prev_fname \<Rightarrow>
               Inr (Some (JStr h) \<noteq> prev_hash \<or> Some (JStr fname) \<noteq> prev_fname
                    \<or> \<not> isfile fs (path_join outdir fname))))"

text \<open>
  The body of the typer variant's selection loop:
  \<^verbatim>\<open>
  for idx, fname in file_specs:
      h = hashes[idx]
      prev_entry = prev_by_index.get(idx)
      if full or not prev_entry:
          to_export.append((idx, fname))
      else:
          ...
  \<close>
\<close>

definition needs_export_typer ::
  "filesystem \<Rightarrow> string \<Rightarrow> bool \<Rightarrow> (nat \<times> string) list \<Rightarrow> (int \<times> json) list
     \<Rightarrow> nat \<times> string \<Rightarrow> error + bool" where
  "needs_export_typer fs outdir full hashes prev_by_index spec =
     (case spec of (idx, fname) \<Rightarrow>
        (case hash_at hashes idx of
           Inl e \<Rightarrow> Inl e
         | Inr h \<Rightarrow>
             (let prev_entry = map_of prev_by_index (int idx)
              in if full \<or> py_not prev_entry then Inr True
                 else (case prev_entry of
                         None \<Rightarrow> Inr True
                       | Some pe \<Rightarrow> changed fs outdir h fname pe))))"

text \<open>
  The stale-file loop of the typer variant:
  \<^verbatim>\<open>
  for k, v in prev_by_index.items():
      old_path = os.path.join(outdir, v.get("filename", ""))
      if (k not in current_indices) or (old_path not in current_filenames):
          if os.path.isfile(old_path):
              stale_files.append(old_path)
  \<close>
  \<^verbatim>\<open>os.path.join\<close> raises \<^verbatim>\<open>TypeError\<close> on anything but a string.
\<close>

fun stale_loop ::
  "filesystem \<Rightarrow> string \<Rightarrow> (nat \<times> string) list \<Rightarrow> (int \<times> json) list \<Rightarrow> error + string list" where
  "stale_loop fs outdir file_specs [] = Inr []"
| "stale_loop fs outdir file_specs ((k, v) # items) =
     (case entry_get v ''filename'' of
        Inl e \<Rightarrow> Inl e
      | Inr name \<Rightarrow>
          (case (case name of None \<Rightarrow> JStr [] | Some x \<Rightarrow> x) of
             JStr f \<Rightarrow>
               (let old_path = path_join outdir f;
                    stale = ((k \<notin> set (map (\<lambda>(i, _). int i) file_specs)
                              \<or> old_path \<notin> set (map (\<lambda>(_, f). path_join outdir f) file_specs))
                             \<and> isfile fs old_path)
                in (case stale_loop fs outdir file_specs items of
                      Inl e \<Rightarrow> Inl e
                    | Inr rest \<Rightarrow> Inr (if stale then old_path # rest else rest)))
           | _ \<Rightarrow> Inl TypeError))"

text \<open>
  \<^verbatim>\<open>
  new_pages = { str(idx): {"filename": fname, "hash": hashes[idx]} for idx, fname in file_specs }
  new_manifest = {"input": ..., "outdir": ..., "pages": new_pages, "version": 1}
  \<close>
  Both callers pass absolute paths, on which \<^verbatim>\<open>abspath\<close> changes nothing.
\<close>

fun new_pages ::
  "(string \<times> json) list \<Rightarrow> (nat \<times> string) list \<Rightarrow> (nat \<times> string) list
     \<Rightarrow> error + (string \<times> json) list" where
  "new_pages acc hashes [] = Inr acc"
| "new_pages acc hashes ((idx, fname) # specs) =
     (case hash_at hashes idx of
        Inl e \<Rightarrow> Inl e
      | Inr h \<Rightarrow>
          new_pages
            (AList.update (str_of_nat idx) (JObj [(''filename'', JStr fname), (''hash'', JStr h)]) acc)
            hashes specs)"

definition new_manifest ::
  "string \<Rightarrow> string \<Rightarrow> (nat \<times> string) list \<Rightarrow> (nat \<times> string) list \<Rightarrow> error + json" where
  "new_manifest input_path outdir hashes file_specs =
     (case new_pages [] hashes file_specs of
        Inl e \<Rightarrow> Inl e
      | Inr pages \<Rightarrow>
          Inr (JObj [(''input'', JStr input_path), (''outdir'', JStr outdir),
                     (''pages'', JObj pages), (''version'', JNum 1)]))"

text \<open>
  \<^verbatim>\<open>incremental_selection(input_path, outdir, full, clean)\<close> of the typer variant: it
  returns \<^verbatim>\<open>to_export, stale_files, new_manifest\<close>, or raises.
\<close>

definition incremental_selection ::
  "filesystem \<Rightarrow> document \<Rightarrow> string \<Rightarrow> string \<Rightarrow> bool \<Rightarrow> bool
     \<Rightarrow> error + ((nat \<times> string) list \<times> string list \<times> json)" where
  "incremental_selection fs doc input_path outdir full clean =
     (case plan_pages page_hash_typer doc of
        Inl e \<Rightarrow> Inl e
      | Inr (file_specs, hashes) \<Rightarrow>
      (case get_pages (load_manifest fs (manifest_path_typer outdir input_path)) of
         Inl e \<Rightarrow> Inl e
       | Inr prev_pages \<Rightarrow>
      (case prev_by_index_of prev_pages of
         Inl e \<Rightarrow> Inl e
       | Inr prev_by_index \<Rightarrow>
      (case filter_err (needs_export_typer fs outdir full hashes prev_by_index) file_specs of
         Inl e \<Rightarrow> Inl e
       | Inr to_export \<Rightarrow>
      (case (if clean \<and> truthy prev_pages
             then stale_loop fs outdir file_specs prev_by_index else Inr []) of
         Inl e \<Rightarrow> Inl e
       | Inr stale_files \<Rightarrow>
      (case new_manifest input_path outdir hashes file_specs of
         Inl e \<Rightarrow> Inl e
       | Inr manifest \<Rightarrow> Inr (to_export, stale_files, manifest)))))))"

text \<open>
  The body of the script variant's loop; it has no \<^verbatim>\<open>full\<close> flag and looks the entry
  up by the string \<^verbatim>\<open>str(idx)\<close>:
  \<^verbatim>\<open>
  for idx, filename in file_specs:
      current_hash = hashes[idx]
      prev_entry = prev_pages.get(str(idx))
      out_path = output_dir / filename
      if not prev_entry:
          to_export.append((idx, filename))
      else:
          ...
  \<close>
\<close>

definition needs_export_script ::
  "filesystem \<Rightarrow> string \<Rightarrow> (nat \<times> string) list \<Rightarrow> json \<Rightarrow> nat \<times> string \<Rightarrow> error + bool" where
  "needs_export_script fs output_dir hashes prev_pages spec =
     (case spec of (idx, filename) \<Rightarrow>
        (case hash_at hashes idx of
           Inl e \<Rightarrow> Inl e
         | Inr current_hash \<Rightarrow>
             (case entry_get prev_pages (str_of_nat idx) of
                Inl e \<Rightarrow> Inl e
              | Inr prev_entry \<Rightarrow>
                  if py_not prev_entry then Inr True
                  else (case prev_entry of
                          None \<Rightarrow> Inr True
                        | Some pe \<Rightarrow> changed fs output_dir current_hash filename pe))))"

text \<open>
  \<^verbatim>\<open>determine_exports(input_file, output_dir)\<close> of the script variant: it returns
  \<^verbatim>\<open>to_export, new_manifest\<close>, or raises.
\<close>

definition determine_exports ::
  "filesystem \<Rightarrow> document \<Rightarrow> string \<Rightarrow> string \<Rightarrow> string
     \<Rightarrow> error + ((nat \<times> string) list \<times> json)" where
  "determine_exports fs doc manifest_dir input_file output_dir =
     (case plan_pages page_hash_script doc of
        Inl e \<Rightarrow> Inl e
      | Inr (file_specs, hashes) \<Rightarrow>
      (case get_pages (load_manifest fs (manifest_path_script manifest_dir input_file)) of
         Inl e \<Rightarrow> Inl e
       | Inr prev_pages \<Rightarrow>
      (case filter_err (needs_export_script fs output_dir hashes prev_pages) file_specs of
         Inl e \<Rightarrow> Inl e
       | Inr to_export \<Rightarrow>
      (case new_manifest input_file output_dir hashes file_specs of
         Inl e \<Rightarrow> Inl e
       | Inr manifest \<Rightarrow> Inr (to_export, manifest)))))"

section \<open>Running the export\<close>

text \<open>
  The external renderer \<^verbatim>\<open>drawio -x -f svg -p N -o out_path input\<close>: for the 1-based page
  number it writes the output file, is not found (\<^verbatim>\<open>FileNotFoundError\<close>), or exits nonzero
  (\<^verbatim>\<open>CalledProcessError\<close>). A run of the tool returns a value, exits with a code, or dies
  with an exception of the planner.
\<close>

datatype outcome = Done | NotFound | Failed

datatype 'a run = Returned 'a | Exit nat | Raised error

fun render_loop ::
  "(nat \<Rightarrow> outcome) \<Rightarrow> filesystem \<Rightarrow> string \<Rightarrow> (nat \<times> string) list
     \<Rightarrow> filesystem \<times> string list run" where
  "render_loop drawio fs outdir [] = (fs, Returned [])"
| "render_loop drawio fs outdir ((page_idx, filename) # rest) =
     (let out_path = path_join outdir filename
      in (case drawio (page_idx + 1) of
            Done \<Rightarrow>
              (case render_loop drawio (fs(out_path \<mapsto> NotJson)) outdir rest of
                 (fs1, Returned exported) \<Rightarrow> (fs1, Returned (out_path # exported))
               | (fs1, r) \<Rightarrow> (fs1, r))
          | NotFound \<Rightarrow> (fs, Exit 2)
          | Failed \<Rightarrow> (fs, Exit 3)))"

text \<open>\<^verbatim>\<open>os.remove(p)\<close> for every stale path; a failure is reported and the loop goes on.\<close>

definition remove_files :: "filesystem \<Rightarrow> string list \<Rightarrow> filesystem" where
  "remove_files fs ps = fold (\<lambda>p fs1. fs1(p := None)) ps fs"

text \<open>
  \<^verbatim>\<open>export_pages(input_path, outdir, dry_run, full, clean)\<close> of the typer variant: plan,
  remove the stale files, render the selected pages, save the manifest.
\<close>

definition export_pages ::
  "(nat \<Rightarrow> outcome) \<Rightarrow> filesystem \<Rightarrow> document \<Rightarrow> string \<Rightarrow> string \<Rightarrow> bool \<Rightarrow> bool \<Rightarrow> bool
     \<Rightarrow> filesystem \<times> string list run" where
  "export_pages drawio fs doc input_path outdir dry_run full clean =
     (case incremental_selection fs doc input_path outdir full clean of
        Inl e \<Rightarrow> (fs, Raised e)
      | Inr (to_export, stale, manifest) \<Rightarrow>
          if dry_run then (fs, Returned (map (\<lambda>(_, f). path_join outdir f) to_export))
          else (case render_loop drawio (remove_files fs stale) outdir to_export of
                  (fs1, Returned exported) \<Rightarrow>
                    (save_manifest fs1 (manifest_path_typer outdir input_path) manifest,
                     Returned exported)
                | (fs1, r) \<Rightarrow> (fs1, r)))"

text \<open>
  \<^verbatim>\<open>do_export(input_file, output_dir)\<close> of the script variant: it returns early, without
  saving, when nothing is selected.
\<close>

definition do_export ::
  "(nat \<Rightarrow> outcome) \<Rightarrow> filesystem \<Rightarrow> document \<Rightarrow> string \<Rightarrow> string \<Rightarrow> string
     \<Rightarrow> filesystem \<times> string list run" where
  "do_export drawio fs doc manifest_dir input_file output_dir =
     (case determine_exports fs doc manifest_dir input_file output_dir of
        Inl e \<Rightarrow> (fs, Raised e)
      | Inr (to_export, manifest) \<Rightarrow>
          if to_export = [] then (fs, Returned [])
          else (case render_loop drawio fs output_dir to_export of
                  (fs1, Returned exported) \<Rightarrow>
                    (save_manifest fs1 (manifest_path_script manifest_dir input_file) manifest,
                     Returned exported)
                | (fs1, r) \<Rightarrow> (fs1, r)))"


section \<open>The manifest of the data model\<close>

text \<open>
  The specification's view of a manifest: for a page index, the filename and the
  fingerprint recorded under the key \<^verbatim>\<open>str(index)\<close>. \<open>manifest_ok\<close> holds of the JSON values
  that have the shape of the data model: a dictionary whose \<^verbatim>\<open>pages\<close>, when present, map
  decimal page indices to entries with a filename and a fingerprint, both strings.
\<close>

definition entry_fields :: "json \<Rightarrow> (string \<times> string) option" where
  "entry_fields v =
     (case v of
        JObj kvs \<Rightarrow>
          (case map_of kvs ''filename'' of
             Some (JStr f) \<Rightarrow> (case map_of kvs ''hash'' of Some (JStr h) \<Rightarrow> Some (f, h) | _ \<Rightarrow> None)
           | _ \<Rightarrow> None)
      | _ \<Rightarrow> None)"

definition manifest_pages :: "json \<Rightarrow> (string \<times> json) list" where
  "manifest_pages m =
     (case m of
        JObj kvs \<Rightarrow> (case map_of kvs ''pages'' of Some (JObj ps) \<Rightarrow> ps | _ \<Rightarrow> [])
      | _ \<Rightarrow> [])"

definition recorded :: "json \<Rightarrow> nat \<Rightarrow> (string \<times> string) option" where
  "recorded m idx =
     (case map_of (manifest_pages m) (str_of_nat idx) of
        None \<Rightarrow> None
      | Some v \<Rightarrow> entry_fields v)"

definition index_key :: "string \<Rightarrow> bool" where
  "index_key k = (case py_int k of None \<Rightarrow> False | Some i \<Rightarrow> 0 \<le> i \<and> k = str_of_nat (nat i))"

text \<open>The page index a key stands for: \<^verbatim>\<open>int(k)\<close>.\<close>

definition key_index :: "string \<Rightarrow> int" where
  "key_index k = (case py_int k of None \<Rightarrow> 0 | Some i \<Rightarrow> i)"

definition pages_ok :: "(string \<times> json) list \<Rightarrow> bool" where
  "pages_ok ps \<longleftrightarrow>
     distinct (map fst ps) \<and> list_all (\<lambda>(k, v). index_key k \<and> entry_fields v \<noteq> None) ps"

definition manifest_ok :: "json \<Rightarrow> bool" where
  "manifest_ok m =
     (case m of
        JObj kvs \<Rightarrow>
          (case map_of kvs ''pages'' of
             None \<Rightarrow> True
           | Some (JObj ps) \<Rightarrow> pages_ok ps
           | Some _ \<Rightarrow> False)
      | _ \<Rightarrow> False)"

text \<open>
  The fingerprint of page \<open>idx\<close> in a run on the page elements \<open>ds\<close>: \<^verbatim>\<open>hashes[idx]\<close> of
  \<^verbatim>\<open>plan_pages\<close>.
\<close>

definition fingerprint :: "(element \<Rightarrow> string) \<Rightarrow> element list \<Rightarrow> nat \<Rightarrow> string" where
  "fingerprint ph ds idx =
     (if ds = [] then sha1_hexdigest ''single-page-fallback'' else ph (ds ! idx))"

text \<open>
  The selection rule as the specification states it: a page is selected when the full
  export is forced, when the previous manifest has no entry for its index, when its
  fingerprint or its filename differs from the entry's, or when its output file is missing.
\<close>

definition selected ::
  "filesystem \<Rightarrow> string \<Rightarrow> bool \<Rightarrow> json \<Rightarrow> (element \<Rightarrow> string) \<Rightarrow> element list \<Rightarrow> nat \<times> string \<Rightarrow> bool" where
  "selected fs outdir full m ph ds spec =
     (case spec of (idx, fname) \<Rightarrow>
        full \<or>
        (case recorded m idx of
           None \<Rightarrow> True
         | Some (f, h) \<Rightarrow>
             fingerprint ph ds idx \<noteq> h \<or> fname \<noteq> f \<or> \<not> isfile fs (path_join outdir fname)))"

text \<open>The manifest a run on the page elements \<open>ds\<close> computes: one entry per page.\<close>

definition run_manifest :: "(element \<Rightarrow> string) \<Rightarrow> element list \<Rightarrow> string \<Rightarrow> string \<Rightarrow> json" where
  "run_manifest ph ds input_path outdir =
     JObj [(''input'', JStr input_path), (''outdir'', JStr outdir),
           (''pages'',
            JObj (map (\<lambda>(idx, fname).
                        (str_of_nat idx,
                         JObj [(''filename'', JStr fname), (''hash'', JStr (fingerprint ph ds idx))]))
                    (fst (plan_diagrams ph ds)))),
           (''version'', JNum 1)]"


text \<open>
  The stale paths as the specification states them, with the check the code adds: a
  recorded entry is stale when its index is not a current page index or its recorded path
  is not a current output path, and it is reported when a file exists at that path.
\<close>

definition stale_paths ::
  "filesystem \<Rightarrow> string \<Rightarrow> (nat \<times> string) list \<Rightarrow> (string \<times> json) list \<Rightarrow> string list" where
  "stale_paths fs outdir file_specs ps =
     concat (map (\<lambda>(k, v).
       (case entry_fields v of
          None \<Rightarrow> []
        | Some (f, h) \<Rightarrow>
            if (key_index k \<notin> set (map (\<lambda>(i, _). int i) file_specs)
                \<or> path_join outdir f \<notin> set (map (\<lambda>(_, g). path_join outdir g) file_specs))
               \<and> isfile fs (path_join outdir f)
            then [path_join outdir f] else [])) ps)"


section \<open>Relations between page content trees\<close>

text \<open>
  Two trees that are the same but for the order in which each node's attribute dictionary
  lists its key-value pairs.
\<close>

inductive attr_reordered :: "element \<Rightarrow> element \<Rightarrow> bool" where
  node: "distinct (map fst as) \<Longrightarrow> distinct (map fst bs) \<Longrightarrow> set as = set bs \<Longrightarrow>
     list_all2 attr_reordered cs ds \<Longrightarrow>
     attr_reordered (Element t as tx cs ta) (Element t bs tx ds ta)"

text \<open>
  Two trees that differ in exactly one place: the value of one attribute of one node, or
  the text of one node, or the tail of one node. A text that is absent and a text that is
  empty feed the same bytes, so a change between the two is none.
\<close>

inductive one_change :: "element \<Rightarrow> element \<Rightarrow> bool" where
  attr_value: "distinct (map fst as) \<Longrightarrow> map_of as k = Some v \<Longrightarrow> v \<noteq> w \<Longrightarrow>
     one_change (Element t as tx cs ta)
       (Element t (map (\<lambda>(k1, v1). if k1 = k then (k1, w) else (k1, v1)) as) tx cs ta)"
| node_text: "fed tx \<noteq> fed ty \<Longrightarrow> one_change (Element t as tx cs ta) (Element t as ty cs ta)"
| node_tail: "fed ta \<noteq> fed tb \<Longrightarrow> one_change (Element t as tx cs ta) (Element t as tx cs tb)"
| in_child: "one_change c d \<Longrightarrow>
     one_change (Element t as tx (cs1 @ c # cs2) ta) (Element t as tx (cs1 @ d # cs2) ta)"

section \<open>A small document\<close>

text \<open>
  A two-page document, its directories and file names, used to instantiate the theorems
  below: pages \<open>A\<close> and \<open>B\<close> under an \<^verbatim>\<open>mxfile\<close> root, the input \<^verbatim>\<open>/d/a.drawio\<close>, the
  output directory \<^verbatim>\<open>/out\<close>, and \<^verbatim>\<open>/s\<close> for the script variant's manifest.
\<close>

definition page_A :: element where
  "page_A = Element ''diagram'' [(''name'', ''A'')] None [] None"

definition page_B :: element where
  "page_B = Element ''diagram'' [(''name'', ''B'')] None [] None"

definition doc_AB :: document where
  "doc_AB = Parsed (Element ''mxfile'' [] None [page_A, page_B] None)"

definition doc_A :: document where
  "doc_A = Parsed (Element ''mxfile'' [] None [page_A] None)"

definition doc_B :: document where
  "doc_B = Parsed (Element ''mxfile'' [] None [page_B] None)"

text \<open>A manifest that records page 0 as \<^verbatim>\<open>A.svg\<close> with the fingerprint \<open>h\<close>, and nothing else.\<close>

definition manifest_A :: "string \<Rightarrow> json" where
  "manifest_A h =
     JObj [(''pages'', JObj [(''0'', JObj [(''filename'', JStr ''A.svg''), (''hash'', JStr h)])])]"





section \<open>Filename uniqueness\<close>

lemma find_name_fresh:
  "find_name seen base count n = (c, m) \<Longrightarrow> m \<notin> set (map fst seen)"
proof (induction seen base count n rule: find_name.induct)
  case (1 seen base count n)
  show ?case
  proof (cases "n \<in> set (map fst seen)")
    case True
    with "1.prems"
    have "find_name seen base (count + 1) (numbered base (count + 1)) = (c, m)"
      by (simp add: find_name.simps [of seen base count n])
    with True show ?thesis by (rule "1.IH")
  next
    case False
    with "1.prems" show ?thesis
      by (simp add: find_name.simps [of seen base count n])
  qed
qed

lemma assign_loop_indices:
  "map fst (assign_loop seen idx ts) = [idx ..< idx + length ts]"
proof (induction ts arbitrary: seen idx)
  case Nil
  show ?case by simp
next
  case (Cons t ts)
  have "[idx ..< idx + length (t # ts)] = idx # [idx + 1 ..< (idx + 1) + length ts]"
    using upt_conv_Cons [of idx "idx + Suc (length ts)"] by (simp del: upt_Suc)
  then show ?case
    by (simp add: Let_def split_beta Cons.IH del: upt_Suc)
qed

lemma assign_loop_fresh:
  "f \<in> set (map snd (assign_loop seen idx ts)) \<Longrightarrow>
     \<exists>n. f = n @ ''.svg'' \<and> n \<notin> set (map fst seen)"
proof (induction ts arbitrary: seen idx)
  case Nil
  then show ?case by simp
next
  case (Cons t ts)
  obtain c n where fn: "find_name seen (sanitize t) (seen_get seen (sanitize t)) (sanitize t) = (c, n)"
    by (cases "find_name seen (sanitize t) (seen_get seen (sanitize t)) (sanitize t)")
  let ?seen2 = "AList.update n 0 (AList.update (sanitize t) c seen)"
  from Cons.prems fn
  consider "f = n @ ''.svg''" | "f \<in> set (map snd (assign_loop ?seen2 (idx + 1) ts))"
    by (auto simp: Let_def)
  then show ?case
  proof cases
    case 1
    with find_name_fresh [OF fn] show ?thesis by blast
  next
    case 2
    then obtain m where "f = m @ ''.svg''" and "m \<notin> set (map fst ?seen2)"
      using Cons.IH by blast
    then show ?thesis by (auto simp: dom_update)
  qed
qed

lemma assign_loop_distinct: "distinct (map snd (assign_loop seen idx ts))"
proof (induction ts arbitrary: seen idx)
  case Nil
  show ?case by simp
next
  case (Cons t ts)
  obtain c n where fn: "find_name seen (sanitize t) (seen_get seen (sanitize t)) (sanitize t) = (c, n)"
    by (cases "find_name seen (sanitize t) (seen_get seen (sanitize t)) (sanitize t)")
  let ?seen2 = "AList.update n 0 (AList.update (sanitize t) c seen)"
  have "n @ ''.svg'' \<notin> set (map snd (assign_loop ?seen2 (idx + 1) ts))"
  proof
    assume "n @ ''.svg'' \<in> set (map snd (assign_loop ?seen2 (idx + 1) ts))"
    then obtain m where "n @ ''.svg'' = m @ ''.svg''" and "m \<notin> set (map fst ?seen2)"
      using assign_loop_fresh by blast
    then show False by (auto simp: dom_update)
  qed
  with fn Cons.IH [of ?seen2 "idx + 1"] show ?case
    by (simp add: Let_def)
qed

text \<open>
  C2. For every list of titles, filename assignment returns one entry per title, numbered
  from 0 in order, whose filenames are pairwise distinct and all end in \<open>.svg\<close>.
\<close>

theorem filenames_unique:
  "length (assign_filenames titles) = length titles \<and>
   map fst (assign_filenames titles) = [0 ..< length titles] \<and>
   distinct (map snd (assign_filenames titles)) \<and>
   (\<forall>f \<in> set (map snd (assign_filenames titles)). \<exists>n. f = n @ ''.svg'')"
proof -
  have "map fst (assign_filenames titles) = [0 ..< length titles]"
    by (simp add: assign_filenames_def assign_loop_indices)
  moreover from this have "length (assign_filenames titles) = length titles"
    by (metis length_map length_upt diff_zero)
  moreover have "distinct (map snd (assign_filenames titles))"
    by (simp add: assign_filenames_def assign_loop_distinct)
  moreover have "\<forall>f \<in> set (map snd (assign_filenames titles)). \<exists>n. f = n @ ''.svg''"
    using assign_loop_fresh [of _ "[]" 0 titles] unfolding assign_filenames_def by blast
  ultimately show ?thesis by blast
qed

theorem filenames_unique_witness:
  "map snd (assign_filenames [''Intro'', ''Intro'', ''Results'']) =
     [''Intro.svg'', ''Intro (1).svg'', ''Results.svg''] \<and>
   distinct (map snd (assign_filenames [''Intro'', ''Intro'', ''Results''])) \<and>
   list_all (\<lambda>f. \<exists>n. f = n @ ''.svg'')
     (map snd (assign_filenames [''Intro'', ''Intro'', ''Results'']))"
proof -
  have "assign_filenames [''Intro'', ''Intro'', ''Results''] =
     [(0, ''Intro.svg''), (1, ''Intro (1).svg''), (2, ''Results.svg'')]"
    by code_simp
  then show ?thesis
    using filenames_unique [of "[''Intro'', ''Intro'', ''Results'']"]
    by (simp add: list_all_iff)
qed

section \<open>Reading a manifest\<close>

lemma digit_char_is_digit: "d < 10 \<Longrightarrow> is_digit (digit_char d)"
proof -
  assume "d < 10"
  then have "d \<in> {0, 1, 2, 3, 4, 5, 6, 7, 8, 9}" by auto
  then show ?thesis by (auto simp: digit_char_def is_digit_def)
qed

lemma digit_val_digit_char: "d < 10 \<Longrightarrow> digit_val (digit_char d) = d"
  by (simp add: digit_val_def digit_char_code)

lemma is_digit_not_space: "is_digit c \<Longrightarrow> \<not> is_space c"
  by (auto simp: is_digit_def is_space_def)

lemma is_digit_not_sign: "is_digit c \<Longrightarrow> c \<noteq> CHR ''-'' \<and> c \<noteq> CHR ''+'' \<and> c \<noteq> CHR ''_''"
  by (auto simp: is_digit_def)

lemma str_of_nat_digits: "list_all is_digit (str_of_nat n)"
proof (induction n rule: str_of_nat.induct)
  case (1 n)
  show ?case
  proof (cases "n < 10")
    case True
    then show ?thesis by (simp add: str_of_nat.simps [of n] digit_char_is_digit)
  next
    case False
    with "1.IH" show ?thesis by (simp add: str_of_nat.simps [of n] digit_char_is_digit)
  qed
qed

lemma strip_digits: "list_all is_digit s \<Longrightarrow> strip s = s"
proof -
  assume digits: "list_all is_digit s"
  have front: "dropWhile is_space t = t" if "list_all is_digit t" for t
    using that by (cases t) (simp_all add: is_digit_not_space)
  from digits have "list_all is_digit (rev s)" by (simp add: list_all_iff)
  then have "dropWhile is_space (rev s) = rev s" by (rule front)
  with front [OF digits] show ?thesis by (simp add: strip_def)
qed

lemma int_tail_snoc:
  "list_all is_digit s \<Longrightarrow> d < 10 \<Longrightarrow>
     int_tail acc (s @ [digit_char d]) = map_option (\<lambda>a. 10 * a + d) (int_tail acc s)"
  by (induction s arbitrary: acc) (simp_all add: digit_char_is_digit digit_val_digit_char)

lemma int_tail_str_of_nat: "int_tail 0 (str_of_nat n) = Some n"
proof (induction n rule: str_of_nat.induct)
  case (1 n)
  show ?case
  proof (cases "n < 10")
    case True
    then show ?thesis
      by (simp add: str_of_nat.simps [of n] digit_char_is_digit digit_val_digit_char)
  next
    case False
    with "1.IH" show ?thesis
      by (simp add: str_of_nat.simps [of n] int_tail_snoc str_of_nat_digits)
  qed
qed

lemma py_int_str_of_nat: "py_int (str_of_nat n) = Some (int n)"
proof -
  obtain c cs where s: "str_of_nat n = c # cs"
    using str_of_nat_nonempty [of n] by (cases "str_of_nat n") auto
  with str_of_nat_digits [of n] have c: "is_digit c" by simp
  have "py_nat (c # cs) = Some n"
    using int_tail_str_of_nat [of n] c s by (simp add: py_nat_def)
  with c s show ?thesis
    using is_digit_not_sign [OF c] strip_digits [OF str_of_nat_digits, of n]
    by (simp add: py_int_def)
qed

lemma index_key_str_of_nat: "index_key (str_of_nat n)"
  by (simp add: index_key_def py_int_str_of_nat)

lemma index_keyD: "index_key k \<Longrightarrow> \<exists>n. k = str_of_nat n \<and> py_int k = Some (int n)"
  by (auto simp: index_key_def py_int_str_of_nat split: option.splits)

lemma update_new: "k \<notin> fst ` set al \<Longrightarrow> AList.update k v al = al @ [(k, v)]"
  by (induction al) auto

lemma pages_ok_Cons:
  "pages_ok ((k, v) # ps) \<longleftrightarrow>
     k \<notin> fst ` set ps \<and> index_key k \<and> entry_fields v \<noteq> None \<and> pages_ok ps"
  by (auto simp: pages_ok_def)

lemma pages_ok_key: "pages_ok ps \<Longrightarrow> (k, v) \<in> set ps \<Longrightarrow> index_key k \<and> entry_fields v \<noteq> None"
  by (auto simp: pages_ok_def list_all_iff)

lemma key_index_str_of_nat: "key_index (str_of_nat n) = int n"
  by (simp add: key_index_def py_int_str_of_nat)

lemma key_index_inj:
  "index_key k \<Longrightarrow> index_key k' \<Longrightarrow> key_index k = key_index k' \<Longrightarrow> k = k'"
  by (auto dest!: index_keyD simp: key_index_str_of_nat)

lemma index_items_exact:
  "pages_ok ps \<Longrightarrow> (\<forall>k \<in> fst ` set ps. key_index k \<notin> fst ` set acc) \<Longrightarrow>
     index_items acc ps = Inr (acc @ map (\<lambda>(k, v). (key_index k, v)) ps)"
proof (induction ps arbitrary: acc)
  case Nil
  show ?case by simp
next
  case (Cons p ps)
  obtain k v where p: "p = (k, v)" by (cases p)
  from Cons.prems p have k: "index_key k" and fresh: "k \<notin> fst ` set ps" and ok: "pages_ok ps"
    by (simp_all add: pages_ok_Cons)
  from k obtain n where n: "k = str_of_nat n" "py_int k = Some (int n)"
    by (auto dest: index_keyD)
  then have ki: "key_index k = int n" by (simp add: key_index_def)
  from Cons.prems p ki have new: "int n \<notin> fst ` set acc" by simp
  have "\<forall>k' \<in> fst ` set ps. key_index k' \<notin> fst ` set (acc @ [(int n, v)])"
  proof
    fix k' assume k': "k' \<in> fst ` set ps"
    then have "index_key k'" using ok by (auto dest: pages_ok_key)
    with k k' fresh ki have "key_index k' \<noteq> int n" by (metis key_index_inj)
    moreover from k' Cons.prems p have "key_index k' \<notin> fst ` set acc" by auto
    ultimately show "key_index k' \<notin> fst ` set (acc @ [(int n, v)])" by auto
  qed
  with ok have "index_items (acc @ [(int n, v)]) ps
      = Inr ((acc @ [(int n, v)]) @ map (\<lambda>(k, v). (key_index k, v)) ps)"
    by (rule Cons.IH)
  with p n ki new show ?case by (simp add: update_new)
qed

lemma map_of_key_index:
  "pages_ok ps \<Longrightarrow>
     map_of (map (\<lambda>(k, v). (key_index k, v)) ps) (int i) = map_of ps (str_of_nat i)"
proof (induction ps)
  case Nil
  show ?case by simp
next
  case (Cons p ps)
  obtain k v where p: "p = (k, v)" by (cases p)
  from Cons.prems p have k: "index_key k" and ok: "pages_ok ps"
    by (simp_all add: pages_ok_Cons)
  from k obtain n where n: "k = str_of_nat n" by (auto dest: index_keyD)
  have "int i = key_index k \<longleftrightarrow> str_of_nat i = k"
    using n by (auto simp: key_index_str_of_nat dest: str_of_nat_inj)
  with p Cons.IH [OF ok] show ?case by simp
qed

lemma prev_by_index_of_ok:
  "pages_ok ps \<Longrightarrow>
     prev_by_index_of (JObj ps) = Inr (map (\<lambda>(k, v). (key_index k, v)) ps)"
  using index_items_exact [of ps "[]"] by (simp add: prev_by_index_of_def)

lemma filter_err_total:
  "(\<And>x. x \<in> set xs \<Longrightarrow> p x = Inr (q x)) \<Longrightarrow> filter_err p xs = Inr (filter q xs)"
  by (induction xs) simp_all

lemma get_pages_ok: "manifest_ok m \<Longrightarrow> get_pages m = Inr (JObj (manifest_pages m))"
  by (auto simp: manifest_ok_def get_pages_def manifest_pages_def split: json.splits option.splits)

lemma manifest_pages_ok: "manifest_ok m \<Longrightarrow> pages_ok (manifest_pages m)"
  by (auto simp: manifest_ok_def manifest_pages_def pages_ok_def split: json.splits option.splits)

text \<open>Facts about \<open>plan_pages\<close>.\<close>

lemma plan_pages_read:
  "get_page_elements doc = Inr ds \<Longrightarrow> plan_pages ph doc = Inr (plan_diagrams ph ds)"
  by (simp add: plan_pages_def)

lemma plan_pages_raises: "get_page_elements doc = Inl e \<Longrightarrow> plan_pages ph doc = Inl e"
  by (simp add: plan_pages_def)

lemma plan_specs: "fst (plan_diagrams ph ds) = assign_filenames (page_titles ds)"
  by (simp add: plan_diagrams_def Let_def)

lemma length_page_titles:
  "length (page_titles ds) = (if ds = [] then 1 else length ds)"
  by (cases ds) (simp_all add: page_titles_def Let_def enumerate_eq_zip)

lemma plan_indices:
  "map fst (fst (plan_diagrams ph ds)) =
     [0 ..< (if ds = [] then 1 else length ds)]"
  by (simp add: plan_specs length_page_titles assign_filenames_def assign_loop_indices)

lemma map_of_enumerate:
  "i < length xs \<Longrightarrow> map_of (map (\<lambda>(i, e). (i, f e)) (enumerate 0 xs)) i = Some (f (xs ! i))"
proof -
  assume i: "i < length xs"
  have "map (\<lambda>(i, e). (i, f e)) (enumerate 0 xs) = zip [0 ..< length xs] (map f xs)"
    by (simp add: enumerate_eq_zip zip_map2 split_def) 
  moreover have "map_of (zip [0 ..< length xs] (map f xs)) ([0 ..< length xs] ! i) = Some (map f xs ! i)"
    using i by (intro map_of_zip_nth) simp_all
  ultimately show ?thesis using i by simp
qed

lemma plan_hash_at:
  assumes "(idx, fname) \<in> set (fst (plan_diagrams ph ds))"
  shows "hash_at (snd (plan_diagrams ph ds)) idx = Inr (fingerprint ph ds idx)"
proof -
  from assms have "idx \<in> set (map fst (fst (plan_diagrams ph ds)))" by force
  then have idx: "idx < (if ds = [] then 1 else length ds)"
    by (simp add: plan_indices)
  show ?thesis
  proof (cases "ds = []")
    case True
    with idx show ?thesis
      by (simp add: plan_diagrams_def Let_def hash_at_def fingerprint_def)
  next
    case False
    with idx show ?thesis
      by (simp add: plan_diagrams_def Let_def hash_at_def fingerprint_def map_of_enumerate)
  qed
qed

section \<open>What the planners compute\<close>

lemma entry_fieldsD:
  "entry_fields v = Some (f, h) \<Longrightarrow>
     \<exists>kvs. v = JObj kvs \<and> map_of kvs ''filename'' = Some (JStr f) \<and> map_of kvs ''hash'' = Some (JStr h)"
  by (cases v) (auto simp: entry_fields_def split: option.splits json.splits)

lemma changed_entry:
  "entry_fields v = Some (f, h) \<Longrightarrow>
     changed fs outdir fp fname v
       = Inr (fp \<noteq> h \<or> fname \<noteq> f \<or> \<not> isfile fs (path_join outdir fname))"
  by (auto dest!: entry_fieldsD simp: changed_def entry_get_def)

lemma py_not_entry: "entry_fields v = Some (f, h) \<Longrightarrow> \<not> py_not (Some v)"
  by (auto dest!: entry_fieldsD simp: py_not_def)

lemma recorded_lookup:
  assumes "manifest_ok m"
  shows "(case map_of (manifest_pages m) (str_of_nat idx) of
            None \<Rightarrow> recorded m idx = None
          | Some v \<Rightarrow> \<exists>f h. entry_fields v = Some (f, h) \<and> recorded m idx = Some (f, h))"
proof (cases "map_of (manifest_pages m) (str_of_nat idx)")
  case None
  then show ?thesis by (simp add: recorded_def)
next
  case (Some v)
  then have "(str_of_nat idx, v) \<in> set (manifest_pages m)" by (rule map_of_SomeD)
  with manifest_pages_ok [OF assms] have "entry_fields v \<noteq> None"
    by (auto dest: pages_ok_key)
  with Some show ?thesis by (auto simp: recorded_def)
qed

lemma needs_export_typer_ok:
  assumes ok: "manifest_ok m"
    and spec: "(idx, fname) \<in> set (fst (plan_diagrams ph ds))"
  shows "needs_export_typer fs outdir full (snd (plan_diagrams ph ds))
           (map (\<lambda>(k, v). (key_index k, v)) (manifest_pages m)) (idx, fname)
         = Inr (selected fs outdir full m ph ds (idx, fname))"
proof -
  have h: "hash_at (snd (plan_diagrams ph ds)) idx = Inr (fingerprint ph ds idx)"
    using spec by (rule plan_hash_at)
  have look: "map_of (map (\<lambda>(k, v). (key_index k, v)) (manifest_pages m)) (int idx)
      = map_of (manifest_pages m) (str_of_nat idx)"
    using manifest_pages_ok [OF ok] by (rule map_of_key_index)
  show ?thesis
  proof (cases "map_of (manifest_pages m) (str_of_nat idx)")
    case None
    with recorded_lookup [OF ok, of idx] have "recorded m idx = None" by simp
    with None h look show ?thesis
      by (simp add: needs_export_typer_def selected_def py_not_def)
  next
    case (Some v)
    with recorded_lookup [OF ok, of idx] obtain f hh
      where v: "entry_fields v = Some (f, hh)" and r: "recorded m idx = Some (f, hh)"
      by auto
    from Some h look r show ?thesis
      by (simp add: needs_export_typer_def selected_def py_not_entry [OF v] changed_entry [OF v])
  qed
qed

lemma needs_export_script_ok:
  assumes ok: "manifest_ok m"
    and spec: "(idx, fname) \<in> set (fst (plan_diagrams ph ds))"
  shows "needs_export_script fs outdir (snd (plan_diagrams ph ds)) (JObj (manifest_pages m)) (idx, fname)
         = Inr (selected fs outdir False m ph ds (idx, fname))"
proof -
  have h: "hash_at (snd (plan_diagrams ph ds)) idx = Inr (fingerprint ph ds idx)"
    using spec by (rule plan_hash_at)
  show ?thesis
  proof (cases "map_of (manifest_pages m) (str_of_nat idx)")
    case None
    with recorded_lookup [OF ok, of idx] have "recorded m idx = None" by simp
    with None h show ?thesis
      by (simp add: needs_export_script_def selected_def py_not_def entry_get_def)
  next
    case (Some v)
    with recorded_lookup [OF ok, of idx] obtain f hh
      where v: "entry_fields v = Some (f, hh)" and r: "recorded m idx = Some (f, hh)"
      by auto
    from Some h r show ?thesis
      by (simp add: needs_export_script_def selected_def entry_get_def
            py_not_entry [OF v] changed_entry [OF v])
  qed
qed

lemma stale_loop_ok:
  "pages_ok ps \<Longrightarrow>
     stale_loop fs outdir specs (map (\<lambda>(k, v). (key_index k, v)) ps)
       = Inr (stale_paths fs outdir specs ps)"
proof (induction ps)
  case Nil
  show ?case by (simp add: stale_paths_def)
next
  case (Cons p ps)
  obtain k v where p: "p = (k, v)" by (cases p)
  from Cons.prems p have ok: "pages_ok ps" and "entry_fields v \<noteq> None"
    by (simp_all add: pages_ok_Cons)
  then obtain f h where v: "entry_fields v = Some (f, h)" by auto
  then have eg: "entry_get v ''filename'' = Inr (Some (JStr f))"
    by (auto dest: entry_fieldsD simp: entry_get_def)
  have tl: "stale_paths fs outdir specs ((k, v) # ps)
      = (if (key_index k \<notin> set (map (\<lambda>(i, _). int i) specs)
             \<or> path_join outdir f \<notin> set (map (\<lambda>(_, g). path_join outdir g) specs))
            \<and> isfile fs (path_join outdir f)
         then [path_join outdir f] else []) @ stale_paths fs outdir specs ps"
    using v by (simp add: stale_paths_def)
  show ?case
    unfolding p by (simp add: tl eg Cons.IH [OF ok] Let_def)
qed

lemma new_pages_exact:
  "distinct (map fst specs) \<Longrightarrow>
   (\<forall>(i, f) \<in> set specs. hash_at hashes i = Inr (fp i)) \<Longrightarrow>
   (\<forall>(i, f) \<in> set specs. str_of_nat i \<notin> fst ` set acc) \<Longrightarrow>
     new_pages acc hashes specs
       = Inr (acc @ map (\<lambda>(i, f). (str_of_nat i, JObj [(''filename'', JStr f), (''hash'', JStr (fp i))])) specs)"
proof (induction specs arbitrary: acc)
  case Nil
  show ?case by simp
next
  case (Cons s specs)
  obtain i f where s: "s = (i, f)" by (cases s)
  let ?e = "JObj [(''filename'', JStr f), (''hash'', JStr (fp i))]"
  from Cons.prems s have new: "str_of_nat i \<notin> fst ` set acc"
    and h: "hash_at hashes i = Inr (fp i)" by auto
  have "str_of_nat j \<notin> fst ` set (acc @ [(str_of_nat i, ?e)])" if jg: "(j, g) \<in> set specs" for j g
  proof
    assume "str_of_nat j \<in> fst ` set (acc @ [(str_of_nat i, ?e)])"
    moreover from jg Cons.prems(3) have "str_of_nat j \<notin> fst ` set acc" by auto
    ultimately have "str_of_nat j = str_of_nat i" by auto
    then have "j = i" by (rule str_of_nat_inj)
    with jg Cons.prems(1) s show False by force
  qed
  then have fresh: "\<forall>(j, g) \<in> set specs. str_of_nat j \<notin> fst ` set (acc @ [(str_of_nat i, ?e)])"
    by blast
  from Cons.prems s have "distinct (map fst specs)"
    and "\<forall>(i, f) \<in> set specs. hash_at hashes i = Inr (fp i)" by auto
  from Cons.IH [OF this fresh] s h new show ?case
    by (simp add: update_new)
qed

lemma new_manifest_ok:
  "new_manifest input_path outdir (snd (plan_diagrams ph ds)) (fst (plan_diagrams ph ds))
     = Inr (run_manifest ph ds input_path outdir)"
proof -
  have "distinct (map fst (fst (plan_diagrams ph ds)))"
    by (simp add: plan_indices)
  moreover have "\<forall>(i, f) \<in> set (fst (plan_diagrams ph ds)).
      hash_at (snd (plan_diagrams ph ds)) i = Inr (fingerprint ph ds i)"
    by (auto intro: plan_hash_at)
  ultimately have "new_pages [] (snd (plan_diagrams ph ds)) (fst (plan_diagrams ph ds))
      = Inr ([] @ map (\<lambda>(i, f). (str_of_nat i,
               JObj [(''filename'', JStr f), (''hash'', JStr (fingerprint ph ds i))]))
             (fst (plan_diagrams ph ds)))"
    by (rule new_pages_exact) simp
  then show ?thesis by (simp add: new_manifest_def run_manifest_def)
qed

lemma incremental_selection_ok:
  assumes gp: "get_page_elements doc = Inr ds"
    and ok: "manifest_ok (load_manifest fs (manifest_path_typer outdir input_path))"
  shows "incremental_selection fs doc input_path outdir full clean =
     Inr (filter (selected fs outdir full (load_manifest fs (manifest_path_typer outdir input_path))
                    page_hash_typer ds)
            (fst (plan_diagrams page_hash_typer ds)),
          (if clean
           then stale_paths fs outdir (fst (plan_diagrams page_hash_typer ds))
                  (manifest_pages (load_manifest fs (manifest_path_typer outdir input_path)))
           else []),
          run_manifest page_hash_typer ds input_path outdir)"
proof -
  let ?m = "load_manifest fs (manifest_path_typer outdir input_path)"
  let ?ps = "manifest_pages ?m"
  let ?r = "map (\<lambda>(k, v). (key_index k, v)) ?ps"
  let ?specs = "fst (plan_diagrams page_hash_typer ds)"
  let ?hashes = "snd (plan_diagrams page_hash_typer ds)"
  have pok: "pages_ok ?ps" using ok by (rule manifest_pages_ok)
  have sel: "filter_err (needs_export_typer fs outdir full ?hashes ?r) ?specs
      = Inr (filter (selected fs outdir full ?m page_hash_typer ds) ?specs)"
    by (rule filter_err_total) (auto simp: needs_export_typer_ok [OF ok])
  have stale: "(if clean \<and> ?ps \<noteq> [] then stale_loop fs outdir ?specs ?r else Inr [])
      = Inr (if clean then stale_paths fs outdir ?specs ?ps else [])"
    by (cases "?ps = []") (simp_all add: stale_loop_ok [OF pok] stale_paths_def)
  show ?thesis
    unfolding incremental_selection_def plan_pages_read [OF gp]
    by (simp add: split_beta get_pages_ok [OF ok] prev_by_index_of_ok [OF pok] sel stale
          new_manifest_ok)
qed

lemma determine_exports_ok:
  assumes gp: "get_page_elements doc = Inr ds"
    and ok: "manifest_ok (load_manifest fs (manifest_path_script manifest_dir input_file))"
  shows "determine_exports fs doc manifest_dir input_file output_dir =
     Inr (filter (selected fs output_dir False
                    (load_manifest fs (manifest_path_script manifest_dir input_file))
                    page_hash_script ds)
            (fst (plan_diagrams page_hash_script ds)),
          run_manifest page_hash_script ds input_file output_dir)"
proof -
  let ?m = "load_manifest fs (manifest_path_script manifest_dir input_file)"
  let ?specs = "fst (plan_diagrams page_hash_script ds)"
  let ?hashes = "snd (plan_diagrams page_hash_script ds)"
  have sel: "filter_err (needs_export_script fs output_dir ?hashes (JObj (manifest_pages ?m))) ?specs
      = Inr (filter (selected fs output_dir False ?m page_hash_script ds) ?specs)"
    by (rule filter_err_total) (auto simp: needs_export_script_ok [OF ok])
  show ?thesis
    unfolding determine_exports_def plan_pages_read [OF gp]
    by (simp add: split_beta get_pages_ok [OF ok] sel new_manifest_ok)
qed

section \<open>Selection of pages\<close>

lemma selected_iff:
  "selected fs outdir full m ph ds (idx, fname) \<longleftrightarrow>
     full \<or> recorded m idx = None
     \<or> (\<exists>f h. recorded m idx = Some (f, h) \<and> fingerprint ph ds idx \<noteq> h)
     \<or> (\<exists>f h. recorded m idx = Some (f, h) \<and> fname \<noteq> f)
     \<or> \<not> isfile fs (path_join outdir fname)"
  by (cases "recorded m idx") (auto simp: selected_def)

text \<open>
  C1. When the page elements \<open>ds\<close> of the document have been read, with a previous
  manifest of the data model's shape, the planner returns, and a page
  \<open>(idx, fname)\<close> of the run is in \<open>to_export\<close> exactly when the full export is forced, or
  the manifest records nothing for \<open>idx\<close>, or the recorded fingerprint differs from the page's,
  or the recorded filename differs from \<open>fname\<close>, or no file exists at \<open>outdir/fname\<close>; so
  a page whose output file was deleted is selected whatever the manifest records. The
  script variant follows the same rule, without the \<open>full\<close> flag.
\<close>

theorem export_selection:
  "(get_page_elements doc = Inr ds \<and>
    manifest_ok (load_manifest fs (manifest_path_typer outdir input_path)) \<longrightarrow>
      (\<exists>to_export stale manifest.
         incremental_selection fs doc input_path outdir full clean
           = Inr (to_export, stale, manifest) \<and>
         (\<forall>idx fname. (idx, fname) \<in> set to_export \<longleftrightarrow>
            (idx, fname) \<in> set (fst (plan_diagrams page_hash_typer ds)) \<and>
            (full
             \<or> recorded (load_manifest fs (manifest_path_typer outdir input_path)) idx = None
             \<or> (\<exists>f h. recorded (load_manifest fs (manifest_path_typer outdir input_path)) idx
                         = Some (f, h) \<and> fingerprint page_hash_typer ds idx \<noteq> h)
             \<or> (\<exists>f h. recorded (load_manifest fs (manifest_path_typer outdir input_path)) idx
                         = Some (f, h) \<and> fname \<noteq> f)
             \<or> \<not> isfile fs (path_join outdir fname))))) \<and>
   (get_page_elements doc = Inr ds \<and>
    manifest_ok (load_manifest fs (manifest_path_script manifest_dir input_path)) \<longrightarrow>
      (\<exists>to_export manifest.
         determine_exports fs doc manifest_dir input_path outdir = Inr (to_export, manifest) \<and>
         (\<forall>idx fname. (idx, fname) \<in> set to_export \<longleftrightarrow>
            (idx, fname) \<in> set (fst (plan_diagrams page_hash_script ds)) \<and>
            (recorded (load_manifest fs (manifest_path_script manifest_dir input_path)) idx = None
             \<or> (\<exists>f h. recorded (load_manifest fs (manifest_path_script manifest_dir input_path)) idx
                         = Some (f, h) \<and> fingerprint page_hash_script ds idx \<noteq> h)
             \<or> (\<exists>f h. recorded (load_manifest fs (manifest_path_script manifest_dir input_path)) idx
                         = Some (f, h) \<and> fname \<noteq> f)
             \<or> \<not> isfile fs (path_join outdir fname)))))"
proof (intro conjI impI; elim conjE)
  assume gp: "get_page_elements doc = Inr ds"
    and ok: "manifest_ok (load_manifest fs (manifest_path_typer outdir input_path))"
  show "\<exists>to_export stale manifest.
         incremental_selection fs doc input_path outdir full clean
           = Inr (to_export, stale, manifest) \<and>
         (\<forall>idx fname. (idx, fname) \<in> set to_export \<longleftrightarrow>
            (idx, fname) \<in> set (fst (plan_diagrams page_hash_typer ds)) \<and>
            (full
             \<or> recorded (load_manifest fs (manifest_path_typer outdir input_path)) idx = None
             \<or> (\<exists>f h. recorded (load_manifest fs (manifest_path_typer outdir input_path)) idx
                         = Some (f, h) \<and> fingerprint page_hash_typer ds idx \<noteq> h)
             \<or> (\<exists>f h. recorded (load_manifest fs (manifest_path_typer outdir input_path)) idx
                         = Some (f, h) \<and> fname \<noteq> f)
             \<or> \<not> isfile fs (path_join outdir fname)))"
    unfolding incremental_selection_ok [OF gp ok]
    by (intro exI conjI refl) (auto simp: selected_iff)
next
  assume gp: "get_page_elements doc = Inr ds"
    and ok: "manifest_ok (load_manifest fs (manifest_path_script manifest_dir input_path))"
  show "\<exists>to_export manifest.
         determine_exports fs doc manifest_dir input_path outdir = Inr (to_export, manifest) \<and>
         (\<forall>idx fname. (idx, fname) \<in> set to_export \<longleftrightarrow>
            (idx, fname) \<in> set (fst (plan_diagrams page_hash_script ds)) \<and>
            (recorded (load_manifest fs (manifest_path_script manifest_dir input_path)) idx = None
             \<or> (\<exists>f h. recorded (load_manifest fs (manifest_path_script manifest_dir input_path)) idx
                         = Some (f, h) \<and> fingerprint page_hash_script ds idx \<noteq> h)
             \<or> (\<exists>f h. recorded (load_manifest fs (manifest_path_script manifest_dir input_path)) idx
                         = Some (f, h) \<and> fname \<noteq> f)
             \<or> \<not> isfile fs (path_join outdir fname)))"
    unfolding determine_exports_ok [OF gp ok]
    by (intro exI conjI refl) (auto simp: selected_iff)
qed

text \<open>The small document, evaluated.\<close>

lemma str_of_nat_0: "str_of_nat 0 = ''0''"
  by (simp add: str_of_nat.simps digit_char_def)

lemma str_of_nat_1: "str_of_nat 1 = ''1''"
  by (simp add: str_of_nat.simps digit_char_def)

lemma str_of_nat_Suc_0: "str_of_nat (Suc 0) = ''1''"
  using str_of_nat_1 by simp

lemma pages_doc_AB: "get_page_elements doc_AB = Inr [page_A, page_B]"
  by (simp add: get_page_elements_def doc_AB_def page_A_def page_B_def)

lemma pages_doc_A: "get_page_elements doc_A = Inr [page_A]"
  by (simp add: get_page_elements_def doc_A_def page_A_def)

lemma pages_doc_B: "get_page_elements doc_B = Inr [page_B]"
  by (simp add: get_page_elements_def doc_B_def page_B_def)

lemma assign_A_B: "assign_filenames [''A'', ''B''] = [(0, ''A.svg''), (1, ''B.svg'')]"
  by code_simp


lemma assign_B: "assign_filenames [''B''] = [(0, ''B.svg'')]"
  by code_simp

lemma specs_doc_AB: "fst (plan_diagrams ph [page_A, page_B]) = [(0, ''A.svg''), (1, ''B.svg'')]"
  by (simp add: plan_specs page_titles_def page_title_def page_A_def page_B_def
        enumerate_eq_zip upt_rec assign_A_B)


lemma specs_doc_B: "fst (plan_diagrams ph [page_B]) = [(0, ''B.svg'')]"
  by (simp add: plan_specs page_titles_def page_title_def page_B_def
        enumerate_eq_zip assign_B)

lemma fingerprint_doc_AB:
  "fingerprint ph [page_A, page_B] 0 = ph page_A" "fingerprint ph [page_A, page_B] (Suc 0) = ph page_B"
  by (simp_all add: fingerprint_def)

lemma manifest_path_typer_ex:
  "manifest_path_typer ''/out'' ''/d/a.drawio'' = ''/out/.drawio-export.a.json''"
  by code_simp

lemma manifest_path_script_ex:
  "manifest_path_script ''/s'' ''/d/a.drawio'' = ''/s/.drawio-export.a.json''"
  by code_simp

lemma path_join_out: "path_join ''/out'' (c # cs) = (if c = CHR ''/'' then c # cs else ''/out/'' @ c # cs)"
  by (simp add: path_join_def)

lemma manifest_A_ok: "manifest_ok (manifest_A h)"
  using index_key_str_of_nat [of 0]
  by (simp add: manifest_ok_def manifest_A_def pages_ok_def entry_fields_def str_of_nat_0)

lemma recorded_manifest_A:
  "recorded (manifest_A h) 0 = Some (''A.svg'', h)" "recorded (manifest_A h) (Suc 0) = None"
  by (simp_all add: recorded_def manifest_A_def manifest_pages_def entry_fields_def
        str_of_nat_0 str_of_nat_Suc_0)

theorem export_selection_witness:
  "get_page_elements doc_AB = Inr [page_A, page_B] \<and>
   manifest_ok (load_manifest
     [''/out/.drawio-export.a.json'' \<mapsto> Json (manifest_A (page_hash_typer page_A)),
      ''/out/A.svg'' \<mapsto> NotJson]
     (manifest_path_typer ''/out'' ''/d/a.drawio'')) \<and>
   (\<exists>to_export stale manifest.
      incremental_selection
        [''/out/.drawio-export.a.json'' \<mapsto> Json (manifest_A (page_hash_typer page_A)),
         ''/out/A.svg'' \<mapsto> NotJson]
        doc_AB ''/d/a.drawio'' ''/out'' False True = Inr (to_export, stale, manifest) \<and>
      (1, ''B.svg'') \<in> set to_export \<and> (0, ''A.svg'') \<notin> set to_export) \<and>
   manifest_ok (load_manifest
     [''/s/.drawio-export.a.json'' \<mapsto> Json (manifest_A (page_hash_script page_A))]
     (manifest_path_script ''/s'' ''/d/a.drawio'')) \<and>
   (\<exists>to_export manifest.
      determine_exports
        [''/s/.drawio-export.a.json'' \<mapsto> Json (manifest_A (page_hash_script page_A))]
        doc_AB ''/s'' ''/d/a.drawio'' ''/out'' = Inr (to_export, manifest) \<and>
      (1, ''B.svg'') \<in> set to_export \<and> (0, ''A.svg'') \<in> set to_export)"
proof -
  let ?fs = "[''/out/.drawio-export.a.json'' \<mapsto> Json (manifest_A (page_hash_typer page_A)),
      ''/out/A.svg'' \<mapsto> NotJson]"
  let ?gs = "[''/s/.drawio-export.a.json'' \<mapsto> Json (manifest_A (page_hash_script page_A))]"
  have lt: "load_manifest ?fs (manifest_path_typer ''/out'' ''/d/a.drawio'')
      = manifest_A (page_hash_typer page_A)"
    by (simp add: manifest_path_typer_ex load_manifest_def isfile_def)
  have ls: "load_manifest ?gs (manifest_path_script ''/s'' ''/d/a.drawio'')
      = manifest_A (page_hash_script page_A)"
    by (simp add: manifest_path_script_ex load_manifest_def isfile_def)
  have okt: "manifest_ok (load_manifest ?fs (manifest_path_typer ''/out'' ''/d/a.drawio''))"
    by (simp only: lt manifest_A_ok)
  have oks: "manifest_ok (load_manifest ?gs (manifest_path_script ''/s'' ''/d/a.drawio''))"
    by (simp only: ls manifest_A_ok)
  note typer = export_selection [where fs = ?fs and outdir = "''/out''"
      and input_path = "''/d/a.drawio''" and doc = doc_AB and ds = "[page_A, page_B]"
      and full = False and clean = True,
      THEN conjunct1, THEN mp, OF conjI [OF pages_doc_AB okt]]
  note script = export_selection [where fs = ?gs and outdir = "''/out''"
      and input_path = "''/d/a.drawio''" and doc = doc_AB and ds = "[page_A, page_B]"
      and manifest_dir = "''/s''",
      THEN conjunct2, THEN mp, OF conjI [OF pages_doc_AB oks]]
  from typer obtain te st nm where
    run: "incremental_selection ?fs doc_AB ''/d/a.drawio'' ''/out'' False True = Inr (te, st, nm)"
    and te: "\<forall>idx fname. (idx, fname) \<in> set te \<longleftrightarrow>
        (idx, fname) \<in> set (fst (plan_diagrams page_hash_typer [page_A, page_B])) \<and>
        (False
         \<or> recorded (load_manifest ?fs (manifest_path_typer ''/out'' ''/d/a.drawio'')) idx = None
         \<or> (\<exists>f h. recorded (load_manifest ?fs (manifest_path_typer ''/out'' ''/d/a.drawio'')) idx
                     = Some (f, h) \<and> fingerprint page_hash_typer [page_A, page_B] idx \<noteq> h)
         \<or> (\<exists>f h. recorded (load_manifest ?fs (manifest_path_typer ''/out'' ''/d/a.drawio'')) idx
                     = Some (f, h) \<and> fname \<noteq> f)
         \<or> \<not> isfile ?fs (path_join ''/out'' fname))"
    by (elim exE conjE) (rule that, assumption+)
  from te [rule_format, of 1 "''B.svg''"] have b: "(1, ''B.svg'') \<in> set te"
    by (simp add: lt specs_doc_AB recorded_manifest_A)
  from te [rule_format, of 0 "''A.svg''"] have a: "(0, ''A.svg'') \<notin> set te"
    by (simp add: lt specs_doc_AB recorded_manifest_A fingerprint_doc_AB path_join_out isfile_def)
  from script obtain te2 nm2 where
    run2: "determine_exports ?gs doc_AB ''/s'' ''/d/a.drawio'' ''/out'' = Inr (te2, nm2)"
    and te2: "\<forall>idx fname. (idx, fname) \<in> set te2 \<longleftrightarrow>
        (idx, fname) \<in> set (fst (plan_diagrams page_hash_script [page_A, page_B])) \<and>
        (recorded (load_manifest ?gs (manifest_path_script ''/s'' ''/d/a.drawio'')) idx = None
         \<or> (\<exists>f h. recorded (load_manifest ?gs (manifest_path_script ''/s'' ''/d/a.drawio'')) idx
                     = Some (f, h) \<and> fingerprint page_hash_script [page_A, page_B] idx \<noteq> h)
         \<or> (\<exists>f h. recorded (load_manifest ?gs (manifest_path_script ''/s'' ''/d/a.drawio'')) idx
                     = Some (f, h) \<and> fname \<noteq> f)
         \<or> \<not> isfile ?gs (path_join ''/out'' fname))"
    by (elim exE conjE) (rule that, assumption+)
  from te2 [rule_format, of 1 "''B.svg''"] have b2: "(1, ''B.svg'') \<in> set te2"
    by (simp add: ls specs_doc_AB recorded_manifest_A)
  from te2 [rule_format, of 0 "''A.svg''"] have a2: "(0, ''A.svg'') \<in> set te2"
    by (simp add: ls specs_doc_AB recorded_manifest_A path_join_out isfile_def)
  from run a b have "\<exists>to_export stale manifest.
      incremental_selection ?fs doc_AB ''/d/a.drawio'' ''/out'' False True
        = Inr (to_export, stale, manifest) \<and>
      (1, ''B.svg'') \<in> set to_export \<and> (0, ''A.svg'') \<notin> set to_export"
    by (intro exI conjI)
  moreover from run2 a2 b2 have "\<exists>to_export manifest.
      determine_exports ?gs doc_AB ''/s'' ''/d/a.drawio'' ''/out'' = Inr (to_export, manifest) \<and>
      (1, ''B.svg'') \<in> set to_export \<and> (0, ''A.svg'') \<in> set to_export"
    by (intro exI conjI)
  ultimately show ?thesis using pages_doc_AB okt oks by (intro conjI)
qed

section \<open>A saved manifest, read back\<close>

lemma distinct_map_sort_key: "distinct (map f (sort_key f xs)) = distinct (map f xs)"
  by (simp add: distinct_map)

lemma map_of_sort_key: "distinct (map fst kvs) \<Longrightarrow> map_of (sort_key fst kvs) = map_of kvs"
  by (subst map_of_inject_set) (simp_all add: distinct_map_sort_key)

lemma incremental_selection_manifest:
  "get_page_elements doc = Inr ds \<Longrightarrow>
   incremental_selection fs doc input_path outdir full clean = Inr (to_export, stale, manifest)
     \<Longrightarrow> manifest = run_manifest page_hash_typer ds input_path outdir"
  by (auto simp: incremental_selection_def plan_pages_read new_manifest_ok split_beta
        split: sum.splits)

lemma determine_exports_manifest:
  "get_page_elements doc = Inr ds \<Longrightarrow>
   determine_exports fs doc manifest_dir input_file output_dir = Inr (to_export, manifest)
     \<Longrightarrow> manifest = run_manifest page_hash_script ds input_file output_dir"
  by (auto simp: determine_exports_def plan_pages_read new_manifest_ok split_beta
        split: sum.splits)

lemma entry_fields_sorted:
  "entry_fields (sort_keys (JObj [(''filename'', JStr f), (''hash'', JStr h)])) = Some (f, h)"
  by (simp add: entry_fields_def map_of_sort_key del: sort_key_simps)

lemma manifest_pages_saved:
  "manifest_pages (sort_keys (run_manifest ph ds input_path outdir)) =
     sort_key fst (map (\<lambda>(idx, fname).
         (str_of_nat idx,
          sort_keys (JObj [(''filename'', JStr fname), (''hash'', JStr (fingerprint ph ds idx))])))
       (fst (plan_diagrams ph ds)))"
  by (simp add: manifest_pages_def run_manifest_def map_of_sort_key split_def comp_def
        del: sort_key_simps)

lemma saved_keys:
  "map fst (map (\<lambda>(idx, fname). (str_of_nat idx, g idx fname)) (fst (plan_diagrams ph ds)))
     = map str_of_nat (map fst (fst (plan_diagrams ph ds)))"
  by (simp add: split_def comp_def)

lemma saved_keys_distinct:
  "distinct (map fst (map (\<lambda>(idx, fname). (str_of_nat idx, g idx fname)) (fst (plan_diagrams ph ds))))"
  unfolding saved_keys
  by (simp add: distinct_map plan_indices inj_on_def str_of_nat_inj del: map_map)

lemma manifest_saved_ok: "manifest_ok (sort_keys (run_manifest ph ds input_path outdir))"
proof -
  let ?ps = "map (\<lambda>(idx, fname).
         (str_of_nat idx,
          sort_keys (JObj [(''filename'', JStr fname), (''hash'', JStr (fingerprint ph ds idx))])))
       (fst (plan_diagrams ph ds))"
  have "distinct (map fst (sort_key fst ?ps))"
    by (simp only: distinct_map_sort_key saved_keys_distinct)
  moreover have "list_all (\<lambda>(k, v). index_key k \<and> entry_fields v \<noteq> None) (sort_key fst ?ps)"
    by (auto simp: list_all_iff index_key_str_of_nat entry_fields_sorted simp del: sort_keys.simps)
  ultimately have "pages_ok (sort_key fst ?ps)"
    unfolding pages_ok_def by (rule conjI)
  moreover have "map_of (sort_key fst
      (map (\<lambda>(k, v). (k, sort_keys v))
        [(''input'', JStr input_path), (''outdir'', JStr outdir),
         (''pages'', JObj (map (\<lambda>(idx, fname). (str_of_nat idx,
             JObj [(''filename'', JStr fname), (''hash'', JStr (fingerprint ph ds idx))]))
            (fst (plan_diagrams ph ds)))),
         (''version'', JNum 1)])) ''pages'' = Some (JObj (sort_key fst ?ps))"
    by (simp add: map_of_sort_key split_def comp_def del: sort_key_simps)
  ultimately show ?thesis
    by (simp add: manifest_ok_def run_manifest_def del: sort_key_simps)
qed

lemma recorded_saved:
  assumes "(idx, fname) \<in> set (fst (plan_diagrams ph ds))"
  shows "recorded (sort_keys (run_manifest ph ds input_path outdir)) idx
           = Some (fname, fingerprint ph ds idx)"
proof -
  let ?g = "\<lambda>idx fname.
      sort_keys (JObj [(''filename'', JStr fname), (''hash'', JStr (fingerprint ph ds idx))])"
  let ?ps = "map (\<lambda>(idx, fname). (str_of_nat idx, ?g idx fname)) (fst (plan_diagrams ph ds))"
  have d: "distinct (map fst ?ps)" by (rule saved_keys_distinct)
  from assms have "(str_of_nat idx, ?g idx fname) \<in> set ?ps" by force
  with d have "map_of ?ps (str_of_nat idx) = Some (?g idx fname)" by simp
  with d show ?thesis
    by (simp add: recorded_def manifest_pages_saved map_of_sort_key entry_fields_sorted
          del: sort_key_simps sort_keys.simps)
qed

lemma recorded_saved_None:
  assumes "idx \<notin> fst ` set (fst (plan_diagrams ph ds))"
  shows "recorded (sort_keys (run_manifest ph ds input_path outdir)) idx = None"
proof -
  let ?g = "\<lambda>idx fname.
      sort_keys (JObj [(''filename'', JStr fname), (''hash'', JStr (fingerprint ph ds idx))])"
  let ?ps = "map (\<lambda>(idx, fname). (str_of_nat idx, ?g idx fname)) (fst (plan_diagrams ph ds))"
  have d: "distinct (map fst ?ps)" by (rule saved_keys_distinct)
  have "str_of_nat idx \<notin> fst ` set ?ps"
  proof
    assume "str_of_nat idx \<in> fst ` set ?ps"
    then obtain j g where jg: "(j, g) \<in> set (fst (plan_diagrams ph ds))"
      and "str_of_nat idx = str_of_nat j" by auto
    then have "idx = j" by (auto dest: str_of_nat_inj)
    with jg assms show False by force
  qed
  then have "map_of ?ps (str_of_nat idx) = None" by (simp add: map_of_eq_None_iff)
  with d show ?thesis
    by (simp add: recorded_def manifest_pages_saved map_of_sort_key
          del: sort_key_simps sort_keys.simps)
qed

lemma load_saved:
  "fs2 path = save_manifest fs1 path manifest path \<Longrightarrow> load_manifest fs2 path = sort_keys manifest"
  by (simp add: load_manifest_def save_manifest_def isfile_def)

lemma nothing_selected:
  assumes files: "\<forall>(idx, fname) \<in> set (fst (plan_diagrams ph ds)). isfile fs (path_join outdir fname)"
  shows "filter (selected fs outdir False (sort_keys (run_manifest ph ds input_path dir)) ph ds)
           (fst (plan_diagrams ph ds)) = []"
proof -
  have "\<not> selected fs outdir False (sort_keys (run_manifest ph ds input_path dir)) ph ds x"
    if "x \<in> set (fst (plan_diagrams ph ds))" for x
  proof -
    obtain idx fname where x: "x = (idx, fname)" by (cases x)
    with that files have "isfile fs (path_join outdir fname)" by auto
    with that x show ?thesis by (simp add: selected_def recorded_saved)
  qed
  then show ?thesis by (simp add: filter_empty_conv)
qed

text \<open>
  C4. If a run without the full flag has planned a document, whose page elements are
  \<open>ds\<close>, and its manifest has been saved, then a second run on the same document, with every output file of the first run's
  file specs present, selects no page. This holds for both variants.
\<close>

theorem second_run_exports_nothing:
  "(get_page_elements doc = Inr ds \<and>
    incremental_selection fs_a doc input_path outdir False clean_a
       = Inr (to_export_a, stale_a, manifest_a) \<and>
    fs_b (manifest_path_typer outdir input_path)
       = save_manifest fs_a (manifest_path_typer outdir input_path) manifest_a
           (manifest_path_typer outdir input_path) \<and>
    (\<forall>(idx, fname) \<in> set (fst (plan_diagrams page_hash_typer ds)).
        isfile fs_b (path_join outdir fname))
    \<longrightarrow> (\<exists>stale_b manifest_b.
          incremental_selection fs_b doc input_path outdir False clean_b
            = Inr ([], stale_b, manifest_b))) \<and>
   (get_page_elements doc = Inr ds \<and>
    determine_exports gs_a doc manifest_dir input_path outdir = Inr (to_export_c, manifest_c) \<and>
    gs_b (manifest_path_script manifest_dir input_path)
       = save_manifest gs_a (manifest_path_script manifest_dir input_path) manifest_c
           (manifest_path_script manifest_dir input_path) \<and>
    (\<forall>(idx, fname) \<in> set (fst (plan_diagrams page_hash_script ds)).
        isfile gs_b (path_join outdir fname))
    \<longrightarrow> (\<exists>manifest_d.
          determine_exports gs_b doc manifest_dir input_path outdir = Inr ([], manifest_d)))"
proof (intro conjI impI; elim conjE)
  assume gp: "get_page_elements doc = Inr ds"
    and run: "incremental_selection fs_a doc input_path outdir False clean_a
       = Inr (to_export_a, stale_a, manifest_a)"
    and saved: "fs_b (manifest_path_typer outdir input_path)
       = save_manifest fs_a (manifest_path_typer outdir input_path) manifest_a
           (manifest_path_typer outdir input_path)"
    and files: "\<forall>(idx, fname) \<in> set (fst (plan_diagrams page_hash_typer ds)).
        isfile fs_b (path_join outdir fname)"
  from gp run have "manifest_a = run_manifest page_hash_typer ds input_path outdir"
    by (rule incremental_selection_manifest)
  with saved have m: "load_manifest fs_b (manifest_path_typer outdir input_path)
      = sort_keys (run_manifest page_hash_typer ds input_path outdir)"
    by (simp add: load_saved)
  then have ok: "manifest_ok (load_manifest fs_b (manifest_path_typer outdir input_path))"
    by (simp only: manifest_saved_ok)
  show "\<exists>stale_b manifest_b.
      incremental_selection fs_b doc input_path outdir False clean_b = Inr ([], stale_b, manifest_b)"
    unfolding incremental_selection_ok [OF gp ok] m
    by (simp only: nothing_selected [OF files]) blast
next
  assume gp: "get_page_elements doc = Inr ds"
    and run: "determine_exports gs_a doc manifest_dir input_path outdir
       = Inr (to_export_c, manifest_c)"
    and saved: "gs_b (manifest_path_script manifest_dir input_path)
       = save_manifest gs_a (manifest_path_script manifest_dir input_path) manifest_c
           (manifest_path_script manifest_dir input_path)"
    and files: "\<forall>(idx, fname) \<in> set (fst (plan_diagrams page_hash_script ds)).
        isfile gs_b (path_join outdir fname)"
  from gp run have "manifest_c = run_manifest page_hash_script ds input_path outdir"
    by (rule determine_exports_manifest)
  with saved have m: "load_manifest gs_b (manifest_path_script manifest_dir input_path)
      = sort_keys (run_manifest page_hash_script ds input_path outdir)"
    by (simp add: load_saved)
  then have ok: "manifest_ok (load_manifest gs_b (manifest_path_script manifest_dir input_path))"
    by (simp only: manifest_saved_ok)
  show "\<exists>manifest_d. determine_exports gs_b doc manifest_dir input_path outdir = Inr ([], manifest_d)"
    unfolding determine_exports_ok [OF gp ok] m
    by (simp only: nothing_selected [OF files]) blast
qed

lemma load_manifest_empty: "load_manifest Map.empty path = JObj []"
  by (simp add: load_manifest_def isfile_def)

lemma manifest_ok_empty: "manifest_ok (JObj [])"
  by (simp add: manifest_ok_def)

lemma first_run_typer:
  assumes gp: "get_page_elements doc = Inr ds"
  shows "incremental_selection Map.empty doc input_path outdir False clean
     = Inr (fst (plan_diagrams page_hash_typer ds), [],
            run_manifest page_hash_typer ds input_path outdir)"
proof -
  have ok: "manifest_ok (load_manifest Map.empty (manifest_path_typer outdir input_path))"
    by (simp only: load_manifest_empty manifest_ok_empty)
  show ?thesis
    unfolding incremental_selection_ok [OF gp ok] load_manifest_empty
    by (simp add: selected_def recorded_def manifest_pages_def stale_paths_def split_def)
qed

lemma first_run_script:
  assumes gp: "get_page_elements doc = Inr ds"
  shows "determine_exports Map.empty doc manifest_dir input_path outdir
     = Inr (fst (plan_diagrams page_hash_script ds),
            run_manifest page_hash_script ds input_path outdir)"
proof -
  have ok: "manifest_ok (load_manifest Map.empty (manifest_path_script manifest_dir input_path))"
    by (simp only: load_manifest_empty manifest_ok_empty)
  show ?thesis
    unfolding determine_exports_ok [OF gp ok] load_manifest_empty
    by (simp add: selected_def recorded_def manifest_pages_def split_def)
qed

theorem second_run_exports_nothing_witness:
  "get_page_elements doc_AB = Inr [page_A, page_B] \<and>
   incremental_selection Map.empty doc_AB ''/d/a.drawio'' ''/out'' False True
     = Inr ([(0, ''A.svg''), (1, ''B.svg'')], [],
            run_manifest page_hash_typer [page_A, page_B] ''/d/a.drawio'' ''/out'') \<and>
   (\<exists>stale2 manifest2.
      incremental_selection
        (save_manifest [''/out/A.svg'' \<mapsto> NotJson, ''/out/B.svg'' \<mapsto> NotJson]
           (manifest_path_typer ''/out'' ''/d/a.drawio'')
           (run_manifest page_hash_typer [page_A, page_B] ''/d/a.drawio'' ''/out''))
        doc_AB ''/d/a.drawio'' ''/out'' False True = Inr ([], stale2, manifest2)) \<and>
   determine_exports Map.empty doc_AB ''/s'' ''/d/a.drawio'' ''/out''
     = Inr ([(0, ''A.svg''), (1, ''B.svg'')],
            run_manifest page_hash_script [page_A, page_B] ''/d/a.drawio'' ''/out'') \<and>
   (\<exists>manifest4.
      determine_exports
        (save_manifest [''/out/A.svg'' \<mapsto> NotJson, ''/out/B.svg'' \<mapsto> NotJson]
           (manifest_path_script ''/s'' ''/d/a.drawio'')
           (run_manifest page_hash_script [page_A, page_B] ''/d/a.drawio'' ''/out''))
        doc_AB ''/s'' ''/d/a.drawio'' ''/out'' = Inr ([], manifest4))"
proof -
  let ?files = "[''/out/A.svg'' \<mapsto> NotJson, ''/out/B.svg'' \<mapsto> NotJson]"
  let ?nm = "run_manifest page_hash_typer [page_A, page_B] ''/d/a.drawio'' ''/out''"
  let ?mp = "manifest_path_typer ''/out'' ''/d/a.drawio''"
  let ?fs2 = "save_manifest ?files ?mp ?nm"
  let ?nm3 = "run_manifest page_hash_script [page_A, page_B] ''/d/a.drawio'' ''/out''"
  let ?mp3 = "manifest_path_script ''/s'' ''/d/a.drawio''"
  let ?gs2 = "save_manifest ?files ?mp3 ?nm3"
  have run1: "incremental_selection Map.empty doc_AB ''/d/a.drawio'' ''/out'' False True
      = Inr ([(0, ''A.svg''), (1, ''B.svg'')], [], ?nm)"
    by (simp only: first_run_typer [OF pages_doc_AB] specs_doc_AB)
  have saved: "?fs2 ?mp = save_manifest Map.empty ?mp ?nm ?mp"
    by (simp add: save_manifest_def)
  have files: "\<forall>(idx, fname) \<in> set (fst (plan_diagrams page_hash_typer [page_A, page_B])).
      isfile ?fs2 (path_join ''/out'' fname)"
    by (simp add: specs_doc_AB path_join_out manifest_path_typer_ex save_manifest_def isfile_def)
  have run3: "determine_exports Map.empty doc_AB ''/s'' ''/d/a.drawio'' ''/out''
      = Inr ([(0, ''A.svg''), (1, ''B.svg'')], ?nm3)"
    by (simp only: first_run_script [OF pages_doc_AB] specs_doc_AB)
  have saved3: "?gs2 ?mp3 = save_manifest Map.empty ?mp3 ?nm3 ?mp3"
    by (simp add: save_manifest_def)
  have files3: "\<forall>(idx, fname) \<in> set (fst (plan_diagrams page_hash_script [page_A, page_B])).
      isfile ?gs2 (path_join ''/out'' fname)"
    by (simp add: specs_doc_AB path_join_out manifest_path_script_ex save_manifest_def isfile_def)
  note typer = second_run_exports_nothing [where fs_a = Map.empty and fs_b = ?fs2
      and clean_a = True and clean_b = True and doc = doc_AB and ds = "[page_A, page_B]"
      and input_path = "''/d/a.drawio''" and outdir = "''/out''",
      THEN conjunct1, THEN mp, OF conjI [OF pages_doc_AB conjI [OF run1 conjI [OF saved files]]]]
  note script = second_run_exports_nothing [where gs_a = Map.empty and gs_b = ?gs2
      and doc = doc_AB and ds = "[page_A, page_B]" and manifest_dir = "''/s''"
      and input_path = "''/d/a.drawio''" and outdir = "''/out''",
      THEN conjunct2, THEN mp, OF conjI [OF pages_doc_AB conjI [OF run3 conjI [OF saved3 files3]]]]
  from pages_doc_AB run1 typer run3 script show ?thesis by (intro conjI)
qed

section \<open>Documents without pages\<close>

lemma sha1_fallback:
  "sha1_hexdigest ''single-page-fallback'' = ''a5dde290f30751672731b423b034a70ba02e31eb''"
  by code_simp

lemma assign_Page_1: "assign_filenames [''Page 1''] = [(0, ''Page 1.svg'')]"
  by code_simp

text \<open>
  A document that the parser rejects with \<^verbatim>\<open>ParseError\<close> has no pages, and for every
  document that is read and has no pages \<open>plan_pages\<close> (with either \<open>page_hash\<close>) returns the
  one entry \<open>Page 1.svg\<close> for the title \<open>Page 1\<close>, with the fingerprint
  \<open>sha1("single-page-fallback")\<close>, whatever the document is; with a previous manifest of the
  data model's shape the planners return as well.
\<close>

lemma parse_error_no_pages: "get_page_elements ParseError = Inr []"
  by (simp add: get_page_elements_def)

lemma no_pages_plan:
  assumes "get_page_elements doc = Inr []"
  shows "page_titles [] = [''Page 1'']"
    and "plan_pages ph doc
      = Inr ([(0, ''Page 1.svg'')], [(0, ''a5dde290f30751672731b423b034a70ba02e31eb'')])"
    and "fingerprint ph [] 0 = ''a5dde290f30751672731b423b034a70ba02e31eb''"
  using assms
  by (simp_all add: plan_pages_def plan_diagrams_def page_titles_def fingerprint_def
        assign_Page_1 sha1_fallback)

lemma no_pages_selection:
  assumes none: "get_page_elements doc = Inr []"
  shows "manifest_ok (load_manifest fs (manifest_path_typer outdir input_path)) \<Longrightarrow>
      \<exists>to_export stale manifest.
         incremental_selection fs doc input_path outdir full clean
           = Inr (to_export, stale, manifest) \<and>
         set to_export \<subseteq> {(0, ''Page 1.svg'')}"
    and "manifest_ok (load_manifest fs (manifest_path_script manifest_dir input_path)) \<Longrightarrow>
      \<exists>to_export manifest.
         determine_exports fs doc manifest_dir input_path outdir = Inr (to_export, manifest) \<and>
         set to_export \<subseteq> {(0, ''Page 1.svg'')}"
proof -
  have plan: "fst (plan_diagrams ph' []) = [(0, ''Page 1.svg'')]" for ph'
    by (simp add: plan_specs page_titles_def assign_Page_1)
  show "\<exists>to_export stale manifest.
         incremental_selection fs doc input_path outdir full clean
           = Inr (to_export, stale, manifest) \<and>
         set to_export \<subseteq> {(0, ''Page 1.svg'')}"
    if ok: "manifest_ok (load_manifest fs (manifest_path_typer outdir input_path))"
    unfolding incremental_selection_ok [OF none ok] plan
    by (intro exI conjI refl) (auto split: if_splits)
  show "\<exists>to_export manifest.
         determine_exports fs doc manifest_dir input_path outdir = Inr (to_export, manifest) \<and>
         set to_export \<subseteq> {(0, ''Page 1.svg'')}"
    if ok: "manifest_ok (load_manifest fs (manifest_path_script manifest_dir input_path))"
    unfolding determine_exports_ok [OF none ok] plan
    by (intro exI conjI refl) (auto split: if_splits)
qed

text \<open>
  C9. Not every unparseable document is treated as a document without pages. When the
  XML declaration of the input names a multi-byte encoding such as \<^verbatim>\<open>gbk\<close>, \<^verbatim>\<open>ET.parse\<close>
  raises \<^verbatim>\<open>ValueError\<close>, and for an unknown encoding name \<^verbatim>\<open>LookupError\<close>. The handler in
  \<^verbatim>\<open>get_page_elements\<close> names \<^verbatim>\<open>ET.ParseError\<close> only, so the exception leaves
  \<open>get_page_elements\<close>, \<open>plan_pages\<close> and both planners, and the run of either variant dies
  with it on a first run, before anything is rendered; on a \<^verbatim>\<open>ParseError\<close> the same
  functions plan the single page \<open>Page 1\<close>.
\<close>

theorem unparseable_document_raises:
  "get_page_elements (OtherError ValueError) = Inl ValueError \<and>
   get_page_elements (OtherError LookupError) = Inl LookupError \<and>
   plan_pages page_hash_script (OtherError ValueError) = Inl ValueError \<and>
   plan_pages page_hash_typer (OtherError ValueError) = Inl ValueError \<and>
   incremental_selection Map.empty (OtherError ValueError) ''/d/a.drawio'' ''/out'' False False
     = Inl ValueError \<and>
   determine_exports Map.empty (OtherError ValueError) ''/s'' ''/d/a.drawio'' ''/out''
     = Inl ValueError \<and>
   export_pages (\<lambda>n. Done) Map.empty (OtherError ValueError) ''/d/a.drawio'' ''/out''
       False False False
     = (Map.empty, Raised ValueError) \<and>
   do_export (\<lambda>n. Done) Map.empty (OtherError ValueError) ''/s'' ''/d/a.drawio'' ''/out''
     = (Map.empty, Raised ValueError) \<and>
   plan_pages page_hash_script ParseError
     = Inr ([(0, ''Page 1.svg'')], [(0, ''a5dde290f30751672731b423b034a70ba02e31eb'')]) \<and>
   plan_pages page_hash_typer ParseError
     = Inr ([(0, ''Page 1.svg'')], [(0, ''a5dde290f30751672731b423b034a70ba02e31eb'')])"
proof -
  have raises: "get_page_elements (OtherError e) = Inl e" for e
    by (simp add: get_page_elements_def)
  have plan: "plan_pages ph (OtherError e) = Inl e" for ph e
    using raises by (rule plan_pages_raises)
  have "incremental_selection Map.empty (OtherError ValueError) ''/d/a.drawio'' ''/out'' False False
      = Inl ValueError"
    by (simp add: incremental_selection_def plan)
  moreover have "determine_exports Map.empty (OtherError ValueError) ''/s'' ''/d/a.drawio'' ''/out''
      = Inl ValueError"
    by (simp add: determine_exports_def plan)
  moreover have "export_pages (\<lambda>n. Done) Map.empty (OtherError ValueError) ''/d/a.drawio'' ''/out''
      False False False = (Map.empty, Raised ValueError)"
    by (simp add: export_pages_def incremental_selection_def plan)
  moreover have "do_export (\<lambda>n. Done) Map.empty (OtherError ValueError) ''/s'' ''/d/a.drawio'' ''/out''
      = (Map.empty, Raised ValueError)"
    by (simp add: do_export_def determine_exports_def plan)
  moreover have "plan_pages ph ParseError
      = Inr ([(0, ''Page 1.svg'')], [(0, ''a5dde290f30751672731b423b034a70ba02e31eb'')])" for ph
    using parse_error_no_pages by (rule no_pages_plan)
  ultimately show ?thesis using raises plan by (intro conjI) simp_all
qed

section \<open>Loading a manifest\<close>

text \<open>
  \<open>load_manifest\<close> is total. When the file is missing, or is not valid JSON, it returns
  the empty manifest, and the planners then treat the run as a first run: every page is
  selected, nothing is stale.
\<close>

lemma load_manifest_not_json:
  "fs path = None \<or> fs path = Some NotJson \<Longrightarrow> load_manifest fs path = JObj []"
  by (auto simp: load_manifest_def isfile_def)

lemma unreadable_manifest_typer:
  assumes gp: "get_page_elements doc = Inr ds"
    and "fs (manifest_path_typer outdir input_path) = None
        \<or> fs (manifest_path_typer outdir input_path) = Some NotJson"
  shows "incremental_selection fs doc input_path outdir full clean
        = Inr (fst (plan_diagrams page_hash_typer ds), [],
               run_manifest page_hash_typer ds input_path outdir)"
proof -
  have m: "load_manifest fs (manifest_path_typer outdir input_path) = JObj []"
    using assms(2) by (rule load_manifest_not_json)
  then have ok: "manifest_ok (load_manifest fs (manifest_path_typer outdir input_path))"
    by (simp only: manifest_ok_empty)
  show ?thesis
    unfolding incremental_selection_ok [OF gp ok] m
    by (simp add: selected_def recorded_def manifest_pages_def stale_paths_def split_def)
qed

lemma unreadable_manifest_script:
  assumes gp: "get_page_elements doc = Inr ds"
    and "fs (manifest_path_script manifest_dir input_path) = None
        \<or> fs (manifest_path_script manifest_dir input_path) = Some NotJson"
  shows "determine_exports fs doc manifest_dir input_path outdir
        = Inr (fst (plan_diagrams page_hash_script ds),
               run_manifest page_hash_script ds input_path outdir)"
proof -
  have m: "load_manifest fs (manifest_path_script manifest_dir input_path) = JObj []"
    using assms(2) by (rule load_manifest_not_json)
  then have ok: "manifest_ok (load_manifest fs (manifest_path_script manifest_dir input_path))"
    by (simp only: manifest_ok_empty)
  show ?thesis
    unfolding determine_exports_ok [OF gp ok] m
    by (simp add: selected_def recorded_def manifest_pages_def split_def)
qed

text \<open>
  C8. A manifest file that holds valid JSON of another shape than a manifest's, here the
  list \<^verbatim>\<open>[]\<close>, is not replaced by the empty manifest. \<^verbatim>\<open>json.load\<close> succeeds, so
  \<open>load_manifest\<close>, whose other paths return \<^verbatim>\<open>{}\<close> and whose result is annotated \<^verbatim>\<open>Dict\<close>,
  returns the list; the planners call \<^verbatim>\<open>.get\<close> on it and both raise \<^verbatim>\<open>AttributeError\<close>,
  where a file that is not JSON at all gives a first run of the same document.
\<close>

theorem manifest_of_other_shape:
  "load_manifest [''/out/.drawio-export.a.json'' \<mapsto> Json (JArr [])]
      ''/out/.drawio-export.a.json'' = JArr [] \<and>
   incremental_selection [''/out/.drawio-export.a.json'' \<mapsto> Json (JArr [])] doc_AB
       ''/d/a.drawio'' ''/out'' False True = Inl AttributeError \<and>
   determine_exports [''/s/.drawio-export.a.json'' \<mapsto> Json (JArr [])] doc_AB
       ''/s'' ''/d/a.drawio'' ''/out'' = Inl AttributeError \<and>
   load_manifest [''/out/.drawio-export.a.json'' \<mapsto> NotJson]
      ''/out/.drawio-export.a.json'' = JObj [] \<and>
   incremental_selection [''/out/.drawio-export.a.json'' \<mapsto> NotJson] doc_AB
       ''/d/a.drawio'' ''/out'' False True
     = Inr ([(0, ''A.svg''), (1, ''B.svg'')], [],
            run_manifest page_hash_typer [page_A, page_B] ''/d/a.drawio'' ''/out'') \<and>
   determine_exports [''/s/.drawio-export.a.json'' \<mapsto> NotJson] doc_AB
       ''/s'' ''/d/a.drawio'' ''/out''
     = Inr ([(0, ''A.svg''), (1, ''B.svg'')],
            run_manifest page_hash_script [page_A, page_B] ''/d/a.drawio'' ''/out'')"
proof -
  let ?fs = "[''/out/.drawio-export.a.json'' \<mapsto> NotJson]"
  let ?gs = "[''/s/.drawio-export.a.json'' \<mapsto> NotJson]"
  have "load_manifest [''/out/.drawio-export.a.json'' \<mapsto> Json (JArr [])]
      ''/out/.drawio-export.a.json'' = JArr []"
    by (simp add: load_manifest_def isfile_def)
  moreover have "incremental_selection [''/out/.drawio-export.a.json'' \<mapsto> Json (JArr [])] doc_AB
       ''/d/a.drawio'' ''/out'' False True = Inl AttributeError"
    unfolding incremental_selection_def plan_pages_read [OF pages_doc_AB]
    by (simp add: load_manifest_def isfile_def manifest_path_typer_ex get_pages_def split_beta)
  moreover have "determine_exports [''/s/.drawio-export.a.json'' \<mapsto> Json (JArr [])] doc_AB
       ''/s'' ''/d/a.drawio'' ''/out'' = Inl AttributeError"
    unfolding determine_exports_def plan_pages_read [OF pages_doc_AB]
    by (simp add: load_manifest_def isfile_def manifest_path_script_ex get_pages_def split_beta)
  moreover have "load_manifest ?fs ''/out/.drawio-export.a.json'' = JObj []"
    by (rule load_manifest_not_json) simp
  moreover have "incremental_selection ?fs doc_AB ''/d/a.drawio'' ''/out'' False True
     = Inr ([(0, ''A.svg''), (1, ''B.svg'')], [],
            run_manifest page_hash_typer [page_A, page_B] ''/d/a.drawio'' ''/out'')"
    using unreadable_manifest_typer [OF pages_doc_AB, where fs = ?fs and outdir = "''/out''"
        and input_path = "''/d/a.drawio''" and full = False and clean = True]
    by (simp add: manifest_path_typer_ex specs_doc_AB)
  moreover have "determine_exports ?gs doc_AB ''/s'' ''/d/a.drawio'' ''/out''
     = Inr ([(0, ''A.svg''), (1, ''B.svg'')],
            run_manifest page_hash_script [page_A, page_B] ''/d/a.drawio'' ''/out'')"
    using unreadable_manifest_script [OF pages_doc_AB, where fs = ?gs and outdir = "''/out''"
        and input_path = "''/d/a.drawio''" and manifest_dir = "''/s''"]
    by (simp add: manifest_path_script_ex specs_doc_AB)
  ultimately show ?thesis by (intro conjI)
qed

section \<open>The two fingerprint functions\<close>

lemma str_join_nonempty: "xs \<noteq> [] \<Longrightarrow> hd xs \<noteq> [] \<Longrightarrow> str_join sep xs \<noteq> []"
  by (cases "(sep, xs)" rule: str_join.cases) simp_all

lemma attrs_line_empty: "attrs_line e = [] \<longleftrightarrow> attrib e = []"
proof
  assume "attrib e = []"
  then show "attrs_line e = []" by (simp add: attrs_line_def)
next
  assume line: "attrs_line e = []"
  show "attrib e = []"
  proof (rule ccontr)
    assume "attrib e \<noteq> []"
    then have "sort (map fst (attrib e)) \<noteq> []"
      by (metis length_sort length_map length_0_conv)
    then have "str_join ''|'' (map (\<lambda>k. k @ ''='' @ attr_get (attrib e) k) (sort (map fst (attrib e)))) \<noteq> []"
      by (intro str_join_nonempty) (simp_all add: hd_map)
    with line show False by (simp add: attrs_line_def)
  qed
qed

text \<open>
  C3, as the code has it. Both scripts assign the same filenames, and both hash the same
  traversal of the page; the typer variant feeds the root's attributes to SHA-1 first. The
  two digests are the same for a page whose root element has no attribute; when it has
  one, the hashed byte streams differ.
\<close>

theorem page_hash_variants:
  "fst (plan_diagrams page_hash_typer ds) = fst (plan_diagrams page_hash_script ds) \<and>
   page_hash_script e = sha1_hexdigest (walk e) \<and>
   page_hash_typer e = sha1_hexdigest (attrs_line e @ walk e) \<and>
   (attrib e = [] \<longrightarrow> page_hash_typer e = page_hash_script e) \<and>
   (attrib e \<noteq> [] \<longrightarrow> attrs_line e @ walk e \<noteq> walk e)"
proof -
  have none: "attrs_line e = []" if "attrib e = []"
    using that by (simp add: attrs_line_def)
  show ?thesis
    by (auto simp: plan_specs page_hash_typer_def page_hash_script_def none attrs_line_empty)
qed

theorem page_hash_variants_witness:
  "attrib (Element ''diagram'' [] None [] None) = [] \<and>
   page_hash_typer (Element ''diagram'' [] None [] None)
     = page_hash_script (Element ''diagram'' [] None [] None) \<and>
   attrib page_A \<noteq> [] \<and> attrs_line page_A @ walk page_A \<noteq> walk page_A"
proof -
  have a: "attrib (Element ''diagram'' [] None [] None) = []" by simp
  have b: "attrib page_A \<noteq> []" by (simp add: page_A_def)
  from a b
    page_hash_variants [where e = "Element ''diagram'' [] None [] None",
      THEN conjunct2, THEN conjunct2, THEN conjunct2, THEN conjunct1, THEN mp, OF a]
    page_hash_variants [where e = page_A,
      THEN conjunct2, THEN conjunct2, THEN conjunct2, THEN conjunct2, THEN mp, OF b]
  show ?thesis by (intro conjI)
qed

text \<open>
  For the page \<open>A\<close>, whose root has the attribute \<open>name\<close>, the two variants compute
  different digests.
\<close>

lemma sha1_page_A_typer:
  "sha1_hexdigest ''name=AdiagramnameA'' = ''a1ddc9042ab2dd5a652aa223de8b5bba6ddb2175''"
  by code_simp

lemma sha1_page_A_script:
  "sha1_hexdigest ''diagramnameA'' = ''69a3bb9d7d22d9e1abec26d195634e6698222de6''"
  by code_simp

lemma sort_single: "sort [x] = [x]"
  by simp

theorem page_hash_variants_differ:
  "page_hash_typer page_A = ''a1ddc9042ab2dd5a652aa223de8b5bba6ddb2175'' \<and>
   page_hash_script page_A = ''69a3bb9d7d22d9e1abec26d195634e6698222de6'' \<and>
   page_hash_typer page_A \<noteq> page_hash_script page_A"
proof -
  have w: "walk page_A = ''diagramnameA''"
    by (simp add: page_A_def attr_get_def fed_def)
  have l: "attrs_line page_A = ''name=A''"
    by (simp add: page_A_def attrs_line_def attr_get_def)
  have t: "page_hash_typer page_A = ''a1ddc9042ab2dd5a652aa223de8b5bba6ddb2175''"
    by (simp add: page_hash_typer_def w l sha1_page_A_typer)
  have s: "page_hash_script page_A = ''69a3bb9d7d22d9e1abec26d195634e6698222de6''"
    by (simp add: page_hash_script_def w sha1_page_A_script)
  from t s show ?thesis by simp
qed

section \<open>Attribute order\<close>

lemma sort_keys_reordered:
  assumes "distinct (map fst as)" "distinct (map fst bs)" "set as = set bs"
  shows "sort (map fst as) = sort (map fst bs)"
proof (rule sorted_distinct_set_unique)
  from assms(3) have "fst ` set as = fst ` set bs" by simp
  then show "set (sort (map fst as)) = set (sort (map fst bs))" by simp
qed (simp_all add: assms)

lemma attr_get_reordered:
  assumes "distinct (map fst as)" "distinct (map fst bs)" "set as = set bs"
  shows "attr_get as = attr_get bs"
proof -
  from assms have "map_of as = map_of bs" by (simp add: map_of_inject_set)
  then show ?thesis by (simp add: attr_get_def fun_eq_iff)
qed

lemma map_walk_eq: "list_all2 (\<lambda>x y. P x y \<and> walk x = walk y) cs ds \<Longrightarrow> map walk cs = map walk ds"
  by (induction rule: list_all2_induct) simp_all

lemma walk_reordered: "attr_reordered e e' \<Longrightarrow> walk e = walk e'"
proof (induction rule: attr_reordered.induct)
  case (node as bs cs ds t tx ta)
  from node.hyps(1-3) have "sort (map fst as) = sort (map fst bs)" and "attr_get as = attr_get bs"
    by (rule sort_keys_reordered, rule attr_get_reordered)
  moreover from node.IH have "map walk cs = map walk ds" by (rule map_walk_eq)
  ultimately show ?case by simp
qed

lemma attrs_line_reordered:
  assumes "attr_reordered e e'"
  shows "attrs_line e = attrs_line e'"
  using assms
proof cases
  case (node as bs cs ds t tx ta)
  from node(3-5) have "sort (map fst as) = sort (map fst bs)" and "attr_get as = attr_get bs"
    by (rule sort_keys_reordered, rule attr_get_reordered)
  with node(1,2) show ?thesis by (simp add: attrs_line_def)
qed

text \<open>
  C6. Two page content trees that are the same but for the order of the attributes
  within their nodes have the same fingerprint, in the script variant and in the typer
  variant: both read the attributes in sorted key order.
\<close>

theorem fingerprint_attribute_order:
  "attr_reordered e e' \<Longrightarrow>
     page_hash_script e = page_hash_script e' \<and> page_hash_typer e = page_hash_typer e'"
  by (simp add: page_hash_script_def page_hash_typer_def walk_reordered attrs_line_reordered)

theorem fingerprint_attribute_order_witness:
  "attr_reordered
     (Element ''diagram'' [(''id'', ''1''), (''name'', ''A'')] None
        [Element ''mxCell'' [(''a'', ''x''), (''b'', ''y'')] (Some ''t'') [] None] None)
     (Element ''diagram'' [(''name'', ''A''), (''id'', ''1'')] None
        [Element ''mxCell'' [(''b'', ''y''), (''a'', ''x'')] (Some ''t'') [] None] None) \<and>
   page_hash_script
     (Element ''diagram'' [(''id'', ''1''), (''name'', ''A'')] None
        [Element ''mxCell'' [(''a'', ''x''), (''b'', ''y'')] (Some ''t'') [] None] None)
   = page_hash_script
     (Element ''diagram'' [(''name'', ''A''), (''id'', ''1'')] None
        [Element ''mxCell'' [(''b'', ''y''), (''a'', ''x'')] (Some ''t'') [] None] None) \<and>
   page_hash_typer
     (Element ''diagram'' [(''id'', ''1''), (''name'', ''A'')] None
        [Element ''mxCell'' [(''a'', ''x''), (''b'', ''y'')] (Some ''t'') [] None] None)
   = page_hash_typer
     (Element ''diagram'' [(''name'', ''A''), (''id'', ''1'')] None
        [Element ''mxCell'' [(''b'', ''y''), (''a'', ''x'')] (Some ''t'') [] None] None)"
proof -
  have inner: "attr_reordered
      (Element ''mxCell'' [(''a'', ''x''), (''b'', ''y'')] (Some ''t'') [] None)
      (Element ''mxCell'' [(''b'', ''y''), (''a'', ''x'')] (Some ''t'') [] None)"
    by (rule attr_reordered.node) auto
  have outer: "attr_reordered
     (Element ''diagram'' [(''id'', ''1''), (''name'', ''A'')] None
        [Element ''mxCell'' [(''a'', ''x''), (''b'', ''y'')] (Some ''t'') [] None] None)
     (Element ''diagram'' [(''name'', ''A''), (''id'', ''1'')] None
        [Element ''mxCell'' [(''b'', ''y''), (''a'', ''x'')] (Some ''t'') [] None] None)"
    by (rule attr_reordered.node) (auto simp: inner)
  from outer fingerprint_attribute_order [OF outer] show ?thesis by (intro conjI) simp_all
qed

section \<open>Sensitivity of the fingerprint\<close>

lemma keys_change:
  "map fst (map (\<lambda>(k1, v1). if k1 = k then (k1, w) else (k1, v1)) as) = map fst as"
  by (induction as) auto

lemma keys_change_comp:
  "map (fst \<circ> (\<lambda>(k1, v1). if k1 = k then (k1, w) else (k1, v1))) as = map fst as"
  by (induction as) auto

lemma attr_get_change:
  "attr_get (map (\<lambda>(k1, v1). if k1 = k then (k1, w) else (k1, v1)) as) k1
     = (if k1 = k \<and> map_of as k \<noteq> None then w else attr_get as k1)"
  by (induction as) (auto simp: attr_get_def)

lemma split_sorted_keys:
  assumes "distinct (map fst as)" "map_of as k = Some v"
  obtains ys zs where "sort (map fst as) = ys @ k # zs" "k \<notin> set ys" "k \<notin> set zs"
proof -
  from assms(2) have "(k, v) \<in> set as" by (rule map_of_SomeD)
  then have "k \<in> fst ` set as" by force
  then have "k \<in> set (sort (map fst as))" by simp
  then obtain ys zs where s: "sort (map fst as) = ys @ k # zs" by (meson split_list)
  from assms(1) have "distinct (sort (map fst as))" by simp
  with s have "k \<notin> set ys" "k \<notin> set zs" by auto
  with s show ?thesis by (rule that)
qed

text \<open>The bytes that the attributes of a node add to the traversal, and to the attribute line.\<close>

lemma attr_bytes_change:
  assumes "distinct (map fst as)" "map_of as k = Some v"
  obtains a b where
    "concat (map (\<lambda>k1. k1 @ attr_get as k1) (sort (map fst as))) = a @ v @ b"
    "concat (map (\<lambda>k1. k1 @ attr_get (map (\<lambda>(k1, v1). if k1 = k then (k1, w) else (k1, v1)) as) k1)
        (sort (map fst as))) = a @ w @ b"
proof -
  let ?bs = "map (\<lambda>(k1, v1). if k1 = k then (k1, w) else (k1, v1)) as"
  from assms obtain ys zs where s: "sort (map fst as) = ys @ k # zs"
    and ys: "k \<notin> set ys" and zs: "k \<notin> set zs"
    by (rule split_sorted_keys)
  have same: "map (\<lambda>k1. k1 @ attr_get ?bs k1) xs = map (\<lambda>k1. k1 @ attr_get as k1) xs"
    if "k \<notin> set xs" for xs
    using that by (induction xs) (auto simp: attr_get_change)
  let ?a = "concat (map (\<lambda>k1. k1 @ attr_get as k1) ys) @ k"
  let ?b = "concat (map (\<lambda>k1. k1 @ attr_get as k1) zs)"
  from assms(2) have v: "attr_get as k = v" and w: "attr_get ?bs k = w"
    by (simp_all add: attr_get_change) (simp add: attr_get_def)
  have "concat (map (\<lambda>k1. k1 @ attr_get as k1) (sort (map fst as))) = ?a @ v @ ?b"
    by (simp add: s v)
  moreover
  have "concat (map (\<lambda>k1. k1 @ attr_get ?bs k1) (sort (map fst as)))
      = concat (map (\<lambda>k1. k1 @ attr_get ?bs k1) ys) @ (k @ attr_get ?bs k)
        @ concat (map (\<lambda>k1. k1 @ attr_get ?bs k1) zs)"
    by (simp only: s map_append list.map concat_append concat.simps append_Nil2)
  then have "concat (map (\<lambda>k1. k1 @ attr_get ?bs k1) (sort (map fst as))) = ?a @ w @ ?b"
    by (simp only: same [OF ys] same [OF zs] w append_assoc)
  ultimately show ?thesis by (rule that)
qed

lemma length_str_join:
  "length (str_join sep xs) = sum_list (map length xs) + length sep * (length xs - 1)"
  by (induction sep xs rule: str_join.induct) simp_all

lemma attrs_line_change:
  assumes "distinct (map fst as)" "map_of as k = Some v"
  shows "length (attrs_line (Element t (map (\<lambda>(k1, v1). if k1 = k then (k1, w) else (k1, v1)) as) tx cs ta))
           + length v
         = length (attrs_line (Element t as tx cs ta)) + length w"
proof -
  let ?bs = "map (\<lambda>(k1, v1). if k1 = k then (k1, w) else (k1, v1)) as"
  from assms obtain ys zs where s: "sort (map fst as) = ys @ k # zs"
    and ys: "k \<notin> set ys" and zs: "k \<notin> set zs"
    by (rule split_sorted_keys)
  have same: "map (\<lambda>k1. k1 @ ''='' @ attr_get ?bs k1) xs = map (\<lambda>k1. k1 @ ''='' @ attr_get as k1) xs"
    if "k \<notin> set xs" for xs
    using that by (induction xs) (auto simp: attr_get_change)
  from assms(2) have v: "attr_get as k = v" and w: "attr_get ?bs k = w"
    by (simp_all add: attr_get_change) (simp add: attr_get_def)
  have new: "attrs_line (Element t ?bs tx cs ta)
      = str_join ''|'' (map (\<lambda>k1. k1 @ ''='' @ attr_get as k1) ys @ (k @ ''='' @ w)
          # map (\<lambda>k1. k1 @ ''='' @ attr_get as k1) zs)"
    unfolding attrs_line_def element.sel keys_change s
    by (simp only: map_append list.map same [OF ys] same [OF zs] w)
  have old: "attrs_line (Element t as tx cs ta)
      = str_join ''|'' (map (\<lambda>k1. k1 @ ''='' @ attr_get as k1) ys @ (k @ ''='' @ v)
          # map (\<lambda>k1. k1 @ ''='' @ attr_get as k1) zs)"
    unfolding attrs_line_def element.sel s
    by (simp only: map_append list.map v)
  show ?thesis
    unfolding new old by (simp add: length_str_join)
qed

lemma walk_one_change: "one_change e e' \<Longrightarrow> walk e \<noteq> walk e'"
proof (induction rule: one_change.induct)
  case (attr_value as k v w t tx cs ta)
  obtain a b where
    "concat (map (\<lambda>k1. k1 @ attr_get as k1) (sort (map fst as))) = a @ v @ b"
    "concat (map (\<lambda>k1. k1 @ attr_get (map (\<lambda>(k1, v1). if k1 = k then (k1, w) else (k1, v1)) as) k1)
        (sort (map fst as))) = a @ w @ b"
    using attr_value(1,2) by (rule attr_bytes_change)
  with attr_value(3) show ?case by (simp add: keys_change_comp)
next
  case (node_text tx ty t as cs ta)
  then show ?case by simp
next
  case (node_tail ta tb t as tx cs)
  then show ?case by simp
next
  case (in_child c d t as tx cs1 cs2 ta)
  then show ?case by simp
qed

lemma walk_length_change:
  assumes "distinct (map fst as)" "map_of as k = Some v"
  shows "length (walk (Element t (map (\<lambda>(k1, v1). if k1 = k then (k1, w) else (k1, v1)) as) tx cs ta))
           + length v
         = length (walk (Element t as tx cs ta)) + length w"
proof -
  obtain a b where
    "concat (map (\<lambda>k1. k1 @ attr_get as k1) (sort (map fst as))) = a @ v @ b"
    "concat (map (\<lambda>k1. k1 @ attr_get (map (\<lambda>(k1, v1). if k1 = k then (k1, w) else (k1, v1)) as) k1)
        (sort (map fst as))) = a @ w @ b"
    using assms by (rule attr_bytes_change)
  then show ?thesis by (simp add: keys_change_comp)
qed

lemma typer_input_one_change:
  assumes "one_change e e'"
  shows "attrs_line e @ walk e \<noteq> attrs_line e' @ walk e'"
  using assms
proof cases
  case (attr_value as k v w t tx cs ta)
  let ?e' = "Element t (map (\<lambda>(k1, v1). if k1 = k then (k1, w) else (k1, v1)) as) tx cs ta"
  let ?e = "Element t as tx cs ta"
  have l: "length (attrs_line ?e') + length v = length (attrs_line ?e) + length w"
    using attr_value(3,4) by (rule attrs_line_change)
  have m: "length (walk ?e') + length v = length (walk ?e) + length w"
    using attr_value(3,4) by (rule walk_length_change)
  have ne: "walk ?e \<noteq> walk ?e'"
    using assms unfolding attr_value(1,2) by (rule walk_one_change)
  have "attrs_line ?e @ walk ?e \<noteq> attrs_line ?e' @ walk ?e'"
  proof
    assume eq: "attrs_line ?e @ walk ?e = attrs_line ?e' @ walk ?e'"
    then have "length (attrs_line ?e @ walk ?e) = length (attrs_line ?e' @ walk ?e')"
      by (rule arg_cong)
    with l m have "length (attrs_line ?e) = length (attrs_line ?e')"
      by (simp del: walk.simps)
    with eq have "walk ?e = walk ?e'" by (simp del: walk.simps)
    with ne show False ..
  qed
  then show ?thesis unfolding attr_value(1,2) .
next
  case (node_text tx ty t as cs ta)
  with walk_one_change [OF assms] show ?thesis by (simp add: attrs_line_def)
next
  case (node_tail ta tb t as tx cs)
  with walk_one_change [OF assms] show ?thesis by (simp add: attrs_line_def)
next
  case (in_child c d t as tx cs1 cs2 ta)
  with walk_one_change [OF assms] show ?thesis by (simp add: attrs_line_def)
qed

text \<open>
  C5, as the code has it. When two page content trees differ in exactly one attribute
  value, or in the text or the tail of exactly one node, the bytes fed to SHA-1 differ, in
  both variants (so the digests differ unless SHA-1 collides on the two streams).
\<close>

theorem single_change_changes_stream:
  "one_change e e' \<Longrightarrow>
     walk e \<noteq> walk e' \<and> attrs_line e @ walk e \<noteq> attrs_line e' @ walk e' \<and>
     page_hash_script e = sha1_hexdigest (walk e) \<and>
     page_hash_script e' = sha1_hexdigest (walk e') \<and>
     page_hash_typer e = sha1_hexdigest (attrs_line e @ walk e) \<and>
     page_hash_typer e' = sha1_hexdigest (attrs_line e' @ walk e')"
  by (simp add: walk_one_change typer_input_one_change page_hash_script_def page_hash_typer_def)

theorem single_change_changes_stream_witness:
  "one_change page_A page_B \<and> walk page_A \<noteq> walk page_B \<and>
   attrs_line page_A @ walk page_A \<noteq> attrs_line page_B @ walk page_B"
proof -
  have "one_change (Element ''diagram'' [(''name'', ''A'')] None [] None)
      (Element ''diagram''
         (map (\<lambda>(k1, v1). if k1 = ''name'' then (k1, ''B'') else (k1, v1)) [(''name'', ''A'')])
         None [] None)"
    by (rule one_change.attr_value [where v = "''A''" and w = "''B''"]) simp_all
  then have c: "one_change page_A page_B" by (simp add: page_A_def page_B_def)
  from c single_change_changes_stream [OF c] show ?thesis by (intro conjI) simp_all
qed

text \<open>
  The fingerprint is not sensitive to every change. The bytes are fed without
  separators, so several changes at once, or a change in the order of children, can leave
  the stream as it was. In each of the three pairs below the two trees differ (in two
  attribute values of a child; in the texts of the root and of its child; in the order of
  the root's two children) and both variants give them the same digest.
\<close>

theorem fingerprint_collisions:
  "Element ''diagram'' [] None [Element ''c'' [(''a'', ''xb''), (''b'', '''')] None [] None] None
     \<noteq> Element ''diagram'' [] None [Element ''c'' [(''a'', ''x''), (''b'', ''b'')] None [] None] None \<and>
   page_hash_script
     (Element ''diagram'' [] None [Element ''c'' [(''a'', ''xb''), (''b'', '''')] None [] None] None)
   = page_hash_script
     (Element ''diagram'' [] None [Element ''c'' [(''a'', ''x''), (''b'', ''b'')] None [] None] None) \<and>
   page_hash_typer
     (Element ''diagram'' [] None [Element ''c'' [(''a'', ''xb''), (''b'', '''')] None [] None] None)
   = page_hash_typer
     (Element ''diagram'' [] None [Element ''c'' [(''a'', ''x''), (''b'', ''b'')] None [] None] None) \<and>
   Element ''diagram'' [] (Some ''xc'') [Element ''c'' [] None [] None] None
     \<noteq> Element ''diagram'' [] (Some ''x'') [Element ''c'' [] (Some ''c'') [] None] None \<and>
   page_hash_script (Element ''diagram'' [] (Some ''xc'') [Element ''c'' [] None [] None] None)
   = page_hash_script (Element ''diagram'' [] (Some ''x'') [Element ''c'' [] (Some ''c'') [] None] None) \<and>
   page_hash_typer (Element ''diagram'' [] (Some ''xc'') [Element ''c'' [] None [] None] None)
   = page_hash_typer (Element ''diagram'' [] (Some ''x'') [Element ''c'' [] (Some ''c'') [] None] None) \<and>
   Element ''diagram'' [] None
       [Element ''a'' [] None [] None, Element ''aa'' [] None [] None] None
     \<noteq> Element ''diagram'' [] None
       [Element ''aa'' [] None [] None, Element ''a'' [] None [] None] None \<and>
   page_hash_script (Element ''diagram'' [] None
       [Element ''a'' [] None [] None, Element ''aa'' [] None [] None] None)
   = page_hash_script (Element ''diagram'' [] None
       [Element ''aa'' [] None [] None, Element ''a'' [] None [] None] None) \<and>
   page_hash_typer (Element ''diagram'' [] None
       [Element ''a'' [] None [] None, Element ''aa'' [] None [] None] None)
   = page_hash_typer (Element ''diagram'' [] None
       [Element ''aa'' [] None [] None, Element ''a'' [] None [] None] None)"
proof -
  have a: "walk (Element ''diagram'' [] None
        [Element ''c'' [(''a'', ''xb''), (''b'', '''')] None [] None] None)
      = walk (Element ''diagram'' [] None
        [Element ''c'' [(''a'', ''x''), (''b'', ''b'')] None [] None] None)"
    by code_simp
  have b: "walk (Element ''diagram'' [] (Some ''xc'') [Element ''c'' [] None [] None] None)
      = walk (Element ''diagram'' [] (Some ''x'') [Element ''c'' [] (Some ''c'') [] None] None)"
    by code_simp
  have c: "walk (Element ''diagram'' [] None
        [Element ''a'' [] None [] None, Element ''aa'' [] None [] None] None)
      = walk (Element ''diagram'' [] None
        [Element ''aa'' [] None [] None, Element ''a'' [] None [] None] None)"
    by code_simp
  show ?thesis
    by (simp add: page_hash_script_def page_hash_typer_def attrs_line_def a b c del: walk.simps)
qed

section \<open>Stale files\<close>

lemma in_concat_map: "p \<in> set (concat (map G ps)) \<longleftrightarrow> (\<exists>x \<in> set ps. p \<in> set (G x))"
  by (induction ps) auto

lemma stale_one:
  "p \<in> set ((\<lambda>(k, v). case entry_fields v of
                None \<Rightarrow> []
              | Some (f, h) \<Rightarrow> if C k f then [path_join outdir f] else []) x)
     \<longleftrightarrow> (\<exists>f h. entry_fields (snd x) = Some (f, h) \<and> C (fst x) f \<and> p = path_join outdir f)"
  by (cases x; cases "entry_fields (snd x)") auto

lemma stale_paths_set:
  "p \<in> set (stale_paths fs outdir specs ps) \<longleftrightarrow>
     (\<exists>x \<in> set ps. \<exists>f h. entry_fields (snd x) = Some (f, h) \<and>
        ((key_index (fst x) \<notin> set (map (\<lambda>(i, _). int i) specs)
          \<or> path_join outdir f \<notin> set (map (\<lambda>(_, g). path_join outdir g) specs))
         \<and> isfile fs (path_join outdir f)) \<and>
        p = path_join outdir f)"
  unfolding stale_paths_def in_concat_map stale_one ..

lemma recorded_iff:
  assumes ok: "manifest_ok m"
  shows "recorded m idx = Some (f, h) \<longleftrightarrow>
     (\<exists>v. (str_of_nat idx, v) \<in> set (manifest_pages m) \<and> entry_fields v = Some (f, h))"
proof -
  have d: "distinct (map fst (manifest_pages m))"
    using manifest_pages_ok [OF ok] by (simp add: pages_ok_def)
  show ?thesis
  proof (cases "map_of (manifest_pages m) (str_of_nat idx)")
    case None
    then have "\<And>v. (str_of_nat idx, v) \<notin> set (manifest_pages m)"
      using d by (metis map_of_is_SomeI option.distinct(1))
    with None show ?thesis by (simp add: recorded_def)
  next
    case (Some u)
    then have "(str_of_nat idx, v) \<in> set (manifest_pages m) \<longleftrightarrow> v = u" for v
      using d by (metis map_of_is_SomeI map_of_SomeD option.inject)
    with Some show ?thesis by (simp add: recorded_def)
  qed
qed

lemma int_index_notin: "int idx \<notin> set (map (\<lambda>(i, _). int i) specs) \<longleftrightarrow> idx \<notin> fst ` set specs"
  by force

lemma set_paths: "set (map (\<lambda>(_, g). path_join outdir g) specs) = (\<lambda>(_, g). path_join outdir g) ` set specs"
  by simp

lemma stale_recorded:
  assumes ok: "manifest_ok m"
  shows "p \<in> set (stale_paths fs outdir specs (manifest_pages m)) \<longleftrightarrow>
     (\<exists>idx f h. recorded m idx = Some (f, h) \<and> p = path_join outdir f \<and>
        (idx \<notin> fst ` set specs \<or> p \<notin> (\<lambda>(_, g). path_join outdir g) ` set specs) \<and>
        isfile fs p)"
    (is "?lhs \<longleftrightarrow> ?rhs")
proof
  assume ?lhs
  then obtain x f h where x: "x \<in> set (manifest_pages m)"
    and v: "entry_fields (snd x) = Some (f, h)" and p: "p = path_join outdir f"
    and st: "key_index (fst x) \<notin> set (map (\<lambda>(i, _). int i) specs)
         \<or> path_join outdir f \<notin> set (map (\<lambda>(_, g). path_join outdir g) specs)"
    and isf: "isfile fs (path_join outdir f)"
    unfolding stale_paths_set by blast
  obtain k u where kv: "x = (k, u)" by (cases x)
  from x kv manifest_pages_ok [OF ok] have "index_key k" by (auto dest: pages_ok_key)
  then obtain idx where k: "k = str_of_nat idx" by (auto dest: index_keyD)
  from x kv k v have "\<exists>v. (str_of_nat idx, v) \<in> set (manifest_pages m) \<and> entry_fields v = Some (f, h)"
    by auto
  then have r: "recorded m idx = Some (f, h)" by (simp only: recorded_iff [OF ok])
  from st kv k have "idx \<notin> fst ` set specs \<or> p \<notin> (\<lambda>(_, g). path_join outdir g) ` set specs"
    unfolding p by (simp only: fst_conv key_index_str_of_nat int_index_notin set_paths)
  with r p isf show ?rhs by blast
next
  assume ?rhs
  then obtain idx f h where r: "recorded m idx = Some (f, h)" and p: "p = path_join outdir f"
    and st: "idx \<notin> fst ` set specs \<or> p \<notin> (\<lambda>(_, g). path_join outdir g) ` set specs"
    and isf: "isfile fs p"
    by blast
  from r obtain v where kv: "(str_of_nat idx, v) \<in> set (manifest_pages m)"
    and v: "entry_fields v = Some (f, h)"
    unfolding recorded_iff [OF ok] by blast
  from st have "key_index (fst (str_of_nat idx, v)) \<notin> set (map (\<lambda>(i, _). int i) specs)
         \<or> path_join outdir f \<notin> set (map (\<lambda>(_, g). path_join outdir g) specs)"
    unfolding p by (simp only: fst_conv key_index_str_of_nat int_index_notin set_paths)
  moreover from v have "entry_fields (snd (str_of_nat idx, v)) = Some (f, h)" by simp
  ultimately show ?lhs
    unfolding stale_paths_set using kv p isf by blast
qed

text \<open>Deleting the last page of a document.\<close>

lemma assign_loop_snoc:
  "\<exists>f. assign_loop seen idx (ts @ [t]) = assign_loop seen idx ts @ [(idx + length ts, f)]"
proof (induction ts arbitrary: seen idx)
  case Nil
  show ?case by (simp add: Let_def split_beta)
next
  case (Cons a ts)
  obtain c n where fn: "find_name seen (sanitize a) (seen_get seen (sanitize a)) (sanitize a) = (c, n)"
    by (cases "find_name seen (sanitize a) (seen_get seen (sanitize a)) (sanitize a)")
  from Cons.IH [of "AList.update n 0 (AList.update (sanitize a) c seen)" "idx + 1"]
  show ?case by (auto simp: Let_def fn)
qed

lemma page_titles_snoc:
  "ds \<noteq> [] \<Longrightarrow> page_titles (ds @ [d]) = page_titles ds @ [page_title (length ds) d]"
  by (cases ds) (simp_all add: page_titles_def Let_def enumerate_append_eq)

lemma plan_specs_snoc:
  assumes "ds \<noteq> []"
  shows "\<exists>f. fst (plan_diagrams ph (ds @ [d])) = fst (plan_diagrams ph ds) @ [(length ds, f)]"
proof -
  have "length (page_titles ds) = length ds" using assms by (simp add: length_page_titles)
  with assign_loop_snoc [of "[]" 0 "page_titles ds" "page_title (length ds) d"]
  show ?thesis
    by (simp add: plan_specs assms page_titles_snoc assign_filenames_def)
qed

lemma fingerprint_prefix:
  assumes "ds \<noteq> []" and "idx < length ds"
  shows "fingerprint ph ds idx = fingerprint ph (ds @ [d]) idx"
  using assms by (simp add: fingerprint_def nth_append)

lemma recorded_saved_iff:
  "recorded (sort_keys (run_manifest ph ds input_path outdir)) idx = Some (f, h) \<longleftrightarrow>
     (idx, f) \<in> set (fst (plan_diagrams ph ds)) \<and> h = fingerprint ph ds idx"
proof (cases "idx \<in> fst ` set (fst (plan_diagrams ph ds))")
  case False
  then have "(idx, f) \<notin> set (fst (plan_diagrams ph ds))" by force
  with False show ?thesis by (simp add: recorded_saved_None)
next
  case True
  then obtain g where g: "(idx, g) \<in> set (fst (plan_diagrams ph ds))" by auto
  have "distinct (map fst (fst (plan_diagrams ph ds)))" by (simp add: plan_indices)
  with g have "(idx, f) \<in> set (fst (plan_diagrams ph ds)) \<longleftrightarrow> f = g"
    by (metis eq_key_imp_eq_value)
  with g show ?thesis by (auto simp: recorded_saved)
qed

text \<open>
  C7, as the code has it. With cleanup requested, the page elements \<open>ds\<close> of the document
  read and a previous manifest of the data model's shape, a path is reported stale exactly when the manifest records it for some
  index, that index is not a current page index or the path is not a current output path,
  and a file exists at the path. When the last page of a document of at least two pages
  is deleted, the manifest of the previous run is in place and the output files of that
  run exist, no page is selected and the deleted page's output file is the one stale path.
\<close>

theorem stale_files:
  "(get_page_elements doc = Inr ds \<and>
    manifest_ok (load_manifest fs (manifest_path_typer outdir input_path)) \<longrightarrow>
      (\<exists>to_export stale manifest.
         incremental_selection fs doc input_path outdir full True
           = Inr (to_export, stale, manifest) \<and>
         (\<forall>p. p \<in> set stale \<longleftrightarrow>
            (\<exists>idx f h.
               recorded (load_manifest fs (manifest_path_typer outdir input_path)) idx = Some (f, h) \<and>
               p = path_join outdir f \<and>
               (idx \<notin> fst ` set (fst (plan_diagrams page_hash_typer ds))
                \<or> p \<notin> (\<lambda>(_, g). path_join outdir g) ` set (fst (plan_diagrams page_hash_typer ds))) \<and>
               isfile fs p)))) \<and>
   (get_page_elements doc_before = Inr (ds @ [d]) \<and> ds \<noteq> [] \<and>
    get_page_elements doc = Inr ds \<and>
    fs (manifest_path_typer outdir input_path)
      = save_manifest fs_before (manifest_path_typer outdir input_path)
          (run_manifest page_hash_typer (ds @ [d]) input_path outdir)
          (manifest_path_typer outdir input_path) \<and>
    (\<forall>(idx, fname) \<in> set (fst (plan_diagrams page_hash_typer (ds @ [d]))).
        isfile fs (path_join outdir fname)) \<longrightarrow>
      (\<exists>stale manifest.
         incremental_selection fs doc input_path outdir False True = Inr ([], stale, manifest) \<and>
         set stale = {path_join outdir (snd (last (fst (plan_diagrams page_hash_typer (ds @ [d])))))}))"
proof (intro conjI impI; elim conjE)
  assume gp: "get_page_elements doc = Inr ds"
    and ok: "manifest_ok (load_manifest fs (manifest_path_typer outdir input_path))"
  show "\<exists>to_export stale manifest.
         incremental_selection fs doc input_path outdir full True
           = Inr (to_export, stale, manifest) \<and>
         (\<forall>p. p \<in> set stale \<longleftrightarrow>
            (\<exists>idx f h.
               recorded (load_manifest fs (manifest_path_typer outdir input_path)) idx = Some (f, h) \<and>
               p = path_join outdir f \<and>
               (idx \<notin> fst ` set (fst (plan_diagrams page_hash_typer ds))
                \<or> p \<notin> (\<lambda>(_, g). path_join outdir g) ` set (fst (plan_diagrams page_hash_typer ds))) \<and>
               isfile fs p))"
  proof (intro exI conjI allI)
    show "incremental_selection fs doc input_path outdir full True
        = Inr (filter (selected fs outdir full
                 (load_manifest fs (manifest_path_typer outdir input_path)) page_hash_typer ds)
                 (fst (plan_diagrams page_hash_typer ds)),
               stale_paths fs outdir (fst (plan_diagrams page_hash_typer ds))
                 (manifest_pages (load_manifest fs (manifest_path_typer outdir input_path))),
               run_manifest page_hash_typer ds input_path outdir)"
      by (simp only: incremental_selection_ok [OF gp ok] if_True)
  next
    fix p
    show "p \<in> set (stale_paths fs outdir (fst (plan_diagrams page_hash_typer ds))
                 (manifest_pages (load_manifest fs (manifest_path_typer outdir input_path))))
      \<longleftrightarrow> (\<exists>idx f h.
               recorded (load_manifest fs (manifest_path_typer outdir input_path)) idx = Some (f, h) \<and>
               p = path_join outdir f \<and>
               (idx \<notin> fst ` set (fst (plan_diagrams page_hash_typer ds))
                \<or> p \<notin> (\<lambda>(_, g). path_join outdir g) ` set (fst (plan_diagrams page_hash_typer ds))) \<and>
               isfile fs p)"
      by (rule stale_recorded [OF ok])
  qed
next
  let ?ph = page_hash_typer
  let ?mp = "manifest_path_typer outdir input_path"
  let ?old = "fst (plan_diagrams ?ph (ds @ [d]))"
  let ?new = "fst (plan_diagrams ?ph ds)"
  assume before: "get_page_elements doc_before = Inr (ds @ [d])" and ds: "ds \<noteq> []"
    and now: "get_page_elements doc = Inr ds"
    and saved: "fs ?mp = save_manifest fs_before ?mp (run_manifest ?ph (ds @ [d]) input_path outdir) ?mp"
    and files: "\<forall>(idx, fname) \<in> set ?old. isfile fs (path_join outdir fname)"
  from saved have m: "load_manifest fs ?mp = sort_keys (run_manifest ?ph (ds @ [d]) input_path outdir)"
    by (rule load_saved)
  then have ok: "manifest_ok (load_manifest fs ?mp)" by (simp only: manifest_saved_ok)
  from plan_specs_snoc [OF ds, of ?ph d]
  obtain f where old: "?old = ?new @ [(length ds, f)]" by (elim exE)
  have "map fst ?new = [0 ..< length ds]"
    using plan_indices [of ?ph ds] ds by simp
  then have "set (map fst ?new) = set [0 ..< length ds]" by (rule arg_cong)
  then have idx_new: "fst ` set ?new = {..< length ds}"
    by (simp only: set_map atLeast_upt)
  have rec_new: "recorded (load_manifest fs ?mp) idx = Some (fname, fingerprint ?ph ds idx)"
    if "(idx, fname) \<in> set ?new" for idx fname
  proof -
    from that idx_new have "idx < length ds" by force
    with ds have "fingerprint ?ph ds idx = fingerprint ?ph (ds @ [d]) idx"
      by (rule fingerprint_prefix)
    moreover from that old have "(idx, fname) \<in> set ?old" by simp
    ultimately show ?thesis by (simp add: m recorded_saved)
  qed
  have none: "filter (selected fs outdir False (load_manifest fs ?mp) ?ph ds) ?new = []"
  proof -
    have "\<not> selected fs outdir False (load_manifest fs ?mp) ?ph ds x" if "x \<in> set ?new" for x
    proof -
      obtain idx fname where x: "x = (idx, fname)" by (cases x)
      with that old files have "isfile fs (path_join outdir fname)" by auto
      with that x show ?thesis by (simp add: selected_def rec_new)
    qed
    then show ?thesis by (simp add: filter_empty_conv)
  qed
  have stale: "p \<in> set (stale_paths fs outdir ?new (manifest_pages (load_manifest fs ?mp)))
      \<longleftrightarrow> p = path_join outdir f" for p
  proof
    assume "p \<in> set (stale_paths fs outdir ?new (manifest_pages (load_manifest fs ?mp)))"
    then obtain idx g h where r: "recorded (load_manifest fs ?mp) idx = Some (g, h)"
      and p: "p = path_join outdir g"
      and st: "idx \<notin> fst ` set ?new \<or> p \<notin> (\<lambda>(_, g). path_join outdir g) ` set ?new"
      unfolding stale_recorded [OF ok] by blast
    from r have "(idx, g) \<in> set ?old" by (simp add: m recorded_saved_iff)
    with old have "(idx, g) \<in> set ?new \<or> (idx, g) = (length ds, f)" by auto
    then show "p = path_join outdir f"
    proof
      assume in_new: "(idx, g) \<in> set ?new"
      then have "idx \<in> fst ` set ?new" by (rule image_eqI [rotated]) simp
      moreover from in_new have "p \<in> (\<lambda>(_, g). path_join outdir g) ` set ?new"
        unfolding p by (rule image_eqI [rotated]) simp
      ultimately show ?thesis using st by simp
    next
      assume "(idx, g) = (length ds, f)"
      with p show ?thesis by simp
    qed
  next
    assume p: "p = path_join outdir f"
    have "recorded (load_manifest fs ?mp) (length ds) = Some (f, fingerprint ?ph (ds @ [d]) (length ds))"
      by (simp add: m recorded_saved old)
    moreover have "length ds \<notin> fst ` set ?new" by (simp add: idx_new)
    moreover from files old have "isfile fs (path_join outdir f)" by simp
    ultimately show "p \<in> set (stale_paths fs outdir ?new (manifest_pages (load_manifest fs ?mp)))"
      unfolding stale_recorded [OF ok] p by blast
  qed
  show "\<exists>stale manifest.
         incremental_selection fs doc input_path outdir False True = Inr ([], stale, manifest) \<and>
         set stale = {path_join outdir (snd (last ?old))}"
  proof (intro exI conjI)
    show "incremental_selection fs doc input_path outdir False True
        = Inr ([], stale_paths fs outdir ?new (manifest_pages (load_manifest fs ?mp)),
               run_manifest ?ph ds input_path outdir)"
      by (simp only: incremental_selection_ok [OF now ok] none if_True)
    have "last ?old = (length ds, f)" by (simp add: old)
    then show "set (stale_paths fs outdir ?new (manifest_pages (load_manifest fs ?mp)))
        = {path_join outdir (snd (last ?old))}"
      using stale by auto
  qed
qed

theorem stale_files_witness:
  "get_page_elements doc_B = Inr [page_B] \<and>
   manifest_ok (load_manifest
     [''/out/.drawio-export.a.json'' \<mapsto> Json (manifest_A ''h''), ''/out/A.svg'' \<mapsto> NotJson]
     (manifest_path_typer ''/out'' ''/d/a.drawio'')) \<and>
   (\<exists>to_export stale manifest.
      incremental_selection
        [''/out/.drawio-export.a.json'' \<mapsto> Json (manifest_A ''h''), ''/out/A.svg'' \<mapsto> NotJson]
        doc_B ''/d/a.drawio'' ''/out'' False True = Inr (to_export, stale, manifest) \<and>
      ''/out/A.svg'' \<in> set stale \<and> ''/out/B.svg'' \<notin> set stale) \<and>
   get_page_elements doc_AB = Inr ([page_A] @ [page_B]) \<and>
   get_page_elements doc_A = Inr [page_A] \<and>
   (\<exists>stale manifest.
      incremental_selection
        (save_manifest [''/out/A.svg'' \<mapsto> NotJson, ''/out/B.svg'' \<mapsto> NotJson]
           (manifest_path_typer ''/out'' ''/d/a.drawio'')
           (run_manifest page_hash_typer [page_A, page_B] ''/d/a.drawio'' ''/out''))
        doc_A ''/d/a.drawio'' ''/out'' False True = Inr ([], stale, manifest) \<and>
      set stale = {''/out/B.svg''})"
proof -
  let ?fs = "[''/out/.drawio-export.a.json'' \<mapsto> Json (manifest_A ''h''), ''/out/A.svg'' \<mapsto> NotJson]"
  let ?mp = "manifest_path_typer ''/out'' ''/d/a.drawio''"
  let ?nm = "run_manifest page_hash_typer [page_A, page_B] ''/d/a.drawio'' ''/out''"
  let ?fs2 = "save_manifest [''/out/A.svg'' \<mapsto> NotJson, ''/out/B.svg'' \<mapsto> NotJson] ?mp ?nm"
  have l: "load_manifest ?fs ?mp = manifest_A ''h''"
    by (simp add: manifest_path_typer_ex load_manifest_def isfile_def)
  have ok: "manifest_ok (load_manifest ?fs ?mp)"
    by (simp only: l manifest_A_ok)
  from stale_files [where fs = ?fs and outdir = "''/out''" and input_path = "''/d/a.drawio''"
      and doc = doc_B and ds = "[page_B]" and full = False,
      THEN conjunct1, THEN mp, OF conjI [OF pages_doc_B ok]]
  obtain te st nm where
    run: "incremental_selection ?fs doc_B ''/d/a.drawio'' ''/out'' False True = Inr (te, st, nm)"
    and st: "\<forall>p. p \<in> set st \<longleftrightarrow>
        (\<exists>idx f h. recorded (load_manifest ?fs ?mp) idx = Some (f, h) \<and>
           p = path_join ''/out'' f \<and>
           (idx \<notin> fst ` set (fst (plan_diagrams page_hash_typer [page_B]))
            \<or> p \<notin> (\<lambda>(_, g). path_join ''/out'' g) ` set (fst (plan_diagrams page_hash_typer [page_B]))) \<and>
           isfile ?fs p)"
    by (elim exE conjE) (rule that, assumption+)
  have "\<exists>idx f h. recorded (load_manifest ?fs ?mp) idx = Some (f, h) \<and>
           ''/out/A.svg'' = path_join ''/out'' f \<and>
           (idx \<notin> fst ` set (fst (plan_diagrams page_hash_typer [page_B]))
            \<or> ''/out/A.svg'' \<notin> (\<lambda>(_, g). path_join ''/out'' g) ` set (fst (plan_diagrams page_hash_typer [page_B]))) \<and>
           isfile ?fs ''/out/A.svg''"
    by (intro exI [of _ 0] exI [of _ "''A.svg''"] exI [of _ "''h''"])
      (simp add: l recorded_manifest_A specs_doc_B path_join_out isfile_def)
  then have a: "''/out/A.svg'' \<in> set st" by (rule st [rule_format, THEN iffD2])
  have "\<not> (\<exists>idx f h. recorded (load_manifest ?fs ?mp) idx = Some (f, h) \<and>
           ''/out/B.svg'' = path_join ''/out'' f \<and>
           (idx \<notin> fst ` set (fst (plan_diagrams page_hash_typer [page_B]))
            \<or> ''/out/B.svg'' \<notin> (\<lambda>(_, g). path_join ''/out'' g) ` set (fst (plan_diagrams page_hash_typer [page_B]))) \<and>
           isfile ?fs ''/out/B.svg'')"
    by (simp add: isfile_def)
  then have b: "''/out/B.svg'' \<notin> set st"
    using st [rule_format, THEN iffD1, of "''/out/B.svg''"] by (rule contrapos_nn)
  from run a b have part1: "\<exists>to_export stale manifest.
      incremental_selection ?fs doc_B ''/d/a.drawio'' ''/out'' False True
        = Inr (to_export, stale, manifest) \<and>
      ''/out/A.svg'' \<in> set stale \<and> ''/out/B.svg'' \<notin> set stale"
    by (intro exI conjI)
  have before: "get_page_elements doc_AB = Inr ([page_A] @ [page_B])" by (simp add: pages_doc_AB)
  have ds: "[page_A] \<noteq> []" by simp
  have saved: "?fs2 ?mp = save_manifest Map.empty ?mp ?nm ?mp"
    by (simp add: save_manifest_def)
  have files: "\<forall>(idx, fname) \<in> set (fst (plan_diagrams page_hash_typer ([page_A] @ [page_B]))).
      isfile ?fs2 (path_join ''/out'' fname)"
    by (simp add: specs_doc_AB path_join_out manifest_path_typer_ex save_manifest_def isfile_def)
  have saved2: "?fs2 ?mp = save_manifest Map.empty ?mp
      (run_manifest page_hash_typer ([page_A] @ [page_B]) ''/d/a.drawio'' ''/out'') ?mp"
    using saved by simp
  from stale_files [where fs = ?fs2 and outdir = "''/out''" and input_path = "''/d/a.drawio''"
      and doc = doc_A and doc_before = doc_AB and ds = "[page_A]" and d = page_B
      and fs_before = Map.empty, THEN conjunct2, THEN mp,
      OF conjI [OF before conjI [OF ds conjI [OF pages_doc_A conjI [OF saved2 files]]]]]
  have part2: "\<exists>stale manifest.
      incremental_selection ?fs2 doc_A ''/d/a.drawio'' ''/out'' False True
        = Inr ([], stale, manifest) \<and> set stale = {''/out/B.svg''}"
    by (simp add: specs_doc_AB path_join_out)
  from pages_doc_B ok part1 before pages_doc_A part2 show ?thesis by (intro conjI)
qed

text \<open>
  A recorded entry is not reported when no file exists at its path: here the manifest
  records \<open>A.svg\<close> for page 0, the current page 0 is \<open>B.svg\<close>, cleanup is requested,
  and nothing is stale. And deleting a page that is not the last one shifts the indices of
  the pages after it: with the manifest of the run on pages \<open>A, B\<close> in place and both
  output files present, the run on \<open>B\<close> alone selects page 0 again.
\<close>

theorem stale_files_counterexample:
  "recorded (load_manifest [''/out/.drawio-export.a.json'' \<mapsto> Json (manifest_A ''h'')]
      (manifest_path_typer ''/out'' ''/d/a.drawio'')) 0 = Some (''A.svg'', ''h'') \<and>
   ''A.svg'' \<notin> snd ` set (fst (plan_diagrams page_hash_typer [page_B])) \<and>
   incremental_selection [''/out/.drawio-export.a.json'' \<mapsto> Json (manifest_A ''h'')]
      doc_B ''/d/a.drawio'' ''/out'' False True
     = Inr ([(0, ''B.svg'')], [], run_manifest page_hash_typer [page_B] ''/d/a.drawio'' ''/out'') \<and>
   get_page_elements doc_AB = Inr [page_A, page_B] \<and>
   get_page_elements doc_B = Inr [page_B] \<and>
   map_sum id fst
     (incremental_selection
        (save_manifest [''/out/A.svg'' \<mapsto> NotJson, ''/out/B.svg'' \<mapsto> NotJson]
           (manifest_path_typer ''/out'' ''/d/a.drawio'')
           (run_manifest page_hash_typer [page_A, page_B] ''/d/a.drawio'' ''/out''))
        doc_B ''/d/a.drawio'' ''/out'' False True)
     = Inr [(0, ''B.svg'')]"
proof -
  let ?fs = "[''/out/.drawio-export.a.json'' \<mapsto> Json (manifest_A ''h'')]"
  let ?mp = "manifest_path_typer ''/out'' ''/d/a.drawio''"
  let ?nm = "run_manifest page_hash_typer [page_A, page_B] ''/d/a.drawio'' ''/out''"
  let ?fs2 = "save_manifest [''/out/A.svg'' \<mapsto> NotJson, ''/out/B.svg'' \<mapsto> NotJson] ?mp ?nm"
  have l: "load_manifest ?fs ?mp = manifest_A ''h''"
    by (simp add: manifest_path_typer_ex load_manifest_def isfile_def)
  have ok: "manifest_ok (load_manifest ?fs ?mp)"
    by (simp only: l manifest_A_ok)
  have run: "incremental_selection ?fs doc_B ''/d/a.drawio'' ''/out'' False True
      = Inr ([(0, ''B.svg'')], [], run_manifest page_hash_typer [page_B] ''/d/a.drawio'' ''/out'')"
  proof -
    have sel: "filter (selected ?fs ''/out'' False (manifest_A ''h'') page_hash_typer [page_B])
        [(0, ''B.svg'')] = [(0, ''B.svg'')]"
      by (simp add: selected_def recorded_manifest_A)
    have st: "stale_paths ?fs ''/out'' [(0, ''B.svg'')] (manifest_pages (manifest_A ''h'')) = []"
      by (simp add: stale_paths_def manifest_pages_def manifest_A_def entry_fields_def
            path_join_out isfile_def)
    show ?thesis
      unfolding incremental_selection_ok [OF pages_doc_B ok] l specs_doc_B sel st by simp
  qed
  have l2: "load_manifest ?fs2 ?mp = sort_keys ?nm"
    by (rule load_saved) (simp add: save_manifest_def)
  then have ok2: "manifest_ok (load_manifest ?fs2 ?mp)"
    by (simp only: manifest_saved_ok)
  have r: "recorded (sort_keys ?nm) 0 = Some (''A.svg'', fingerprint page_hash_typer [page_A, page_B] 0)"
    by (rule recorded_saved) (simp add: specs_doc_AB)
  have run2: "map_sum id fst (incremental_selection ?fs2 doc_B ''/d/a.drawio'' ''/out'' False True)
      = Inr [(0, ''B.svg'')]"
    unfolding incremental_selection_ok [OF pages_doc_B ok2] l2 specs_doc_B
    by (simp add: selected_def r)
  from run run2 show ?thesis
    by (simp add: l recorded_manifest_A specs_doc_B pages_doc_AB pages_doc_B)
qed

section \<open>A failed rendering\<close>






















end
